theory Spec2Isabelle
  imports Main "HOL-Library.Word"
begin

unbundle bit_operations_syntax

section \<open>Go values: bytes, machine integers, errors and panics\<close>

text \<open>
  The operator is built for 64-bit targets, where Go's \<open>int\<close> and \<open>uint\<close> are 64 bits wide.
  Signed overflow wraps in Go, and the conversion \<open>uint(inc)\<close> keeps the bit pattern, so both
  types are the same \<open>64 word\<close> here; \<open>sint\<close> reads the signed value.
\<close>

type_synonym byte = "8 word"
type_synonym go_int = "64 word"
type_synonym go_uint = "64 word"

datatype panic = IndexOutOfRange | NilDereference

datatype 'a outcome = Returns 'a | Panics panic

text \<open>
  Error values. \<open>AwsError code message\<close> is a value of the SDK's \<open>awserr.Error\<close>;
  \<open>ErrNew\<close> and \<open>ErrWrap\<close> are what \<open>errors.New\<close> and \<open>errors.Wrap\<close> of
  \<open>github.com/pkg/errors\<close> build; \<open>ParseError\<close> is the \<open>net\<close> package's parse error;
  \<open>ErrWaitTimeout\<close> is \<open>wait.ErrWaitTimeout\<close>; \<open>ErrOther\<close> is any other error value.
  A Go \<open>error\<close> that may be \<open>nil\<close> is an \<open>error option\<close>.
\<close>

datatype error =
    ErrNew string
  | ErrWrap error string
  | AwsError string string
  | ParseError string
  | ErrWaitTimeout
  | ErrOther string

text \<open>\<open>errors.Wrap\<close> and \<open>errors.Wrapf\<close> return \<open>nil\<close> when the wrapped error is \<open>nil\<close>.\<close>

definition Wrap :: "error option \<Rightarrow> string \<Rightarrow> error option" where
  "Wrap err msg = (case err of None \<Rightarrow> None | Some e \<Rightarrow> Some (ErrWrap e msg))"

definition Wrapf :: "error option \<Rightarrow> string \<Rightarrow> error option" where
  "Wrapf err msg = Wrap err msg"

section \<open>The net package: addresses, masks and networks\<close>

text \<open>
  \<open>net.IP\<close> and \<open>net.IPMask\<close> are byte slices; a \<open>nil\<close> slice is the empty list.
  An IPv4 address is either 4 bytes or 16 bytes with the IPv4-in-IPv6 prefix.
\<close>

type_synonym IP = "byte list"
type_synonym IPMask = "byte list"

record IPNet =
  IP :: IP
  Mask :: IPMask

definition v4InV6Prefix :: "byte list" where
  "v4InV6Prefix = [0, 0, 0, 0, 0, 0, 0, 0, 0, 0, 0xff, 0xff]"

definition IPv4 :: "byte \<Rightarrow> byte \<Rightarrow> byte \<Rightarrow> byte \<Rightarrow> IP" where
  "IPv4 a b c d = v4InV6Prefix @ [a, b, c, d]"

definition To4 :: "IP \<Rightarrow> IP" where
  "To4 ip =
     (if length ip = 4 then ip
      else if length ip = 16 \<and> take 12 ip = v4InV6Prefix then drop 12 ip
      else [])"

definition allFF :: "byte list \<Rightarrow> bool" where
  "allFF b = (\<forall>c \<in> set b. c = 0xff)"

text \<open>\<open>IP.Mask\<close>: the address masked bytewise, \<open>nil\<close> when the lengths do not fit.\<close>

definition MaskIP :: "IP \<Rightarrow> IPMask \<Rightarrow> IP" where
  "MaskIP ip0 mask0 =
     (let mask1 = (if length mask0 = 16 \<and> length ip0 = 4 \<and> allFF (take 12 mask0)
                   then drop 12 mask0 else mask0);
          ip1 = (if length mask1 = 4 \<and> length ip0 = 16 \<and> take 12 ip0 = v4InV6Prefix
                 then drop 12 ip0 else ip0)
      in if length ip1 \<noteq> length mask1 then []
         else map (\<lambda>(x, m). x AND m) (zip ip1 mask1))"

text \<open>\<open>IP.Equal\<close>: an IPv4 address and its 16-byte form are equal.\<close>

definition Equal :: "IP \<Rightarrow> IP \<Rightarrow> bool" where
  "Equal ip x =
     (if length ip = length x then ip = x
      else if length ip = 4 \<and> length x = 16 then take 12 x = v4InV6Prefix \<and> ip = drop 12 x
      else if length ip = 16 \<and> length x = 4 then take 12 ip = v4InV6Prefix \<and> drop 12 ip = x
      else False)"

definition networkNumberAndMask :: "IPNet \<Rightarrow> IP \<times> IPMask" where
  "networkNumberAndMask n =
     (let ip4 = To4 (IP n) in
      if ip4 = [] \<and> length (IP n) \<noteq> 16 then ([], [])
      else
        let ip = (if ip4 = [] then IP n else ip4); m = Mask n in
        if length m = 4 then (if length ip \<noteq> 4 then ([], []) else (ip, m))
        else if length m = 16 then (if length ip = 4 then (ip, drop 12 m) else (ip, m))
        else ([], []))"

definition Contains :: "IPNet \<Rightarrow> IP \<Rightarrow> bool" where
  "Contains n ip0 =
     (case networkNumberAndMask n of (nn, m) \<Rightarrow>
        let ip = (if To4 ip0 \<noteq> [] then To4 ip0 else ip0) in
        if length ip \<noteq> length nn then False
        else (\<forall>i < length ip. (nn ! i) AND (m ! i) = (ip ! i) AND (m ! i)))"

text \<open>\<open>net.CIDRMask ones bits\<close>; the loop runs over the bytes of the mask.\<close>

fun cidrMaskBytes :: "nat \<Rightarrow> nat \<Rightarrow> byte list" where
  "cidrMaskBytes 0 n = []"
| "cidrMaskBytes (Suc l) n =
     (if 8 \<le> n then 0xff # cidrMaskBytes l (n - 8)
      else NOT (drop_bit n (0xff :: byte)) # cidrMaskBytes l 0)"

definition CIDRMask :: "int \<Rightarrow> int \<Rightarrow> IPMask" where
  "CIDRMask ones bits =
     (if bits \<noteq> 32 \<and> bits \<noteq> 128 then []
      else if ones < 0 \<or> bits < ones then []
      else cidrMaskBytes (nat (bits div 8)) (nat ones))"

text \<open>
  \<open>IPMask.Size\<close> through \<open>simpleMaskLength\<close>: the number of leading one bits, or \<open>None\<close>
  (Go's \<open>-1\<close>) when the mask is not of the form ones-then-zeros.
\<close>

function leadingOnes :: "byte \<Rightarrow> nat \<Rightarrow> byte \<times> nat" where
  "leadingOnes v n = (if v AND 0x80 \<noteq> 0 then leadingOnes (push_bit 1 v) (n + 1) else (v, n))"
  by pat_completeness auto
termination
proof (relation "measure (\<lambda>(v, n). unat v)")
  show "wf (measure (\<lambda>(v :: byte, n :: nat). unat v))"
    by simp
next
  fix v :: byte and n :: nat
  assume "v AND 0x80 \<noteq> 0"
  then have "v AND 2 ^ 7 \<noteq> 0" by simp
  then have "bit v 7" by (simp only: and_exp_eq_0_iff_not_bit) simp
  then have "bit (unat v) 7" by (simp add: bit_unsigned_iff)
  then have "odd (unat v div 128)" by (simp add: bit_iff_odd_drop_bit drop_bit_eq_div)
  then have "unat v div 128 \<noteq> 0" by (metis even_zero)
  then have a: "128 \<le> unat v" by simp
  have b: "unat v < 256" using unsigned_less [of v] by simp
  have "unat (push_bit 1 v) = (2 * unat v) mod 256"
    by (simp add: unat_word_ariths push_bit_eq_mult mult.commute)
  also have "\<dots> = (2 * unat v - 256) mod 256" using a by (simp add: le_mod_geq)
  also have "\<dots> = 2 * unat v - 256" using b by simp
  finally have "unat (push_bit 1 v) < unat v" using a b by simp
  then show "((push_bit 1 v, n + 1), (v, n)) \<in> measure (\<lambda>(v, n). unat v)"
    by simp
qed

fun simpleMaskLength :: "IPMask \<Rightarrow> nat \<Rightarrow> nat option" where
  "simpleMaskLength [] n = Some n"
| "simpleMaskLength (v # rest) n =
     (if v = 0xff then simpleMaskLength rest (n + 8)
      else case leadingOnes v n of (v', n') \<Rightarrow>
        if v' \<noteq> 0 then None
        else if (\<exists>b \<in> set rest. b \<noteq> 0) then None
        else Some n')"

definition Size :: "IPMask \<Rightarrow> nat \<times> nat" where
  "Size m = (case simpleMaskLength m 0 of None \<Rightarrow> (0, 0) | Some ones \<Rightarrow> (ones, length m * 8))"

subsection \<open>Printing addresses\<close>

definition digit :: "nat \<Rightarrow> char" where
  "digit n = char_of (48 + n)"

text \<open>\<open>ubtoa\<close>: a byte in decimal, without leading zeros.\<close>

definition ubtoa :: "byte \<Rightarrow> string" where
  "ubtoa v =
     (if unat v < 10 then [digit (unat v)]
      else if unat v < 100 then [digit (unat v div 10), digit (unat v mod 10)]
      else [digit (unat v div 100), digit (unat v div 10 mod 10), digit (unat v mod 10)])"

fun itoa :: "nat \<Rightarrow> string" where
  "itoa n = (if n < 10 then [digit n] else itoa (n div 10) @ [digit (n mod 10)])"

text \<open>
  \<open>IP.String\<close>: dotted decimal for an IPv4 address. The formats of the other lengths
  (\<open><nil>\<close>, IPv6 text, hexadecimal) are not needed here and are one placeholder text.
\<close>

definition IP_String :: "IP \<Rightarrow> string" where
  "IP_String ip =
     (case To4 ip of
        [a, b, c, d] \<Rightarrow> ubtoa a @ ''.'' @ ubtoa b @ ''.'' @ ubtoa c @ ''.'' @ ubtoa d
      | _ \<Rightarrow> ''?'')"

text \<open>\<open>IPNet.String\<close>: address, slash, prefix length, for a mask of ones and then zeros.\<close>

definition IPNet_String :: "IPNet \<Rightarrow> string" where
  "IPNet_String n =
     (case simpleMaskLength (Mask n) 0 of
        Some l \<Rightarrow> IP_String (IP n) @ ''/'' @ itoa l
      | None \<Rightarrow> ''?'')"

subsection \<open>Parsing CIDR text\<close>

definition isDigit :: "char \<Rightarrow> bool" where
  "isDigit c \<longleftrightarrow> 48 \<le> (of_char c :: int) \<and> (of_char c :: int) \<le> 57"

definition digitVal :: "char \<Rightarrow> int" where
  "digitVal c = of_char c - 48"

text \<open>
  \<open>parseIPv4\<close> of \<open>net/netip\<close>: one pass over the text with the value and the digit count
  of the current field and the octets read so far. At a dot, Go's test
  \<open>i == 0 || i == len(s)-1 || s[i-1] == '.'\<close> is \<open>digLen = 0\<close> or nothing left after
  the dot.
\<close>

fun parseIPv4Loop :: "string \<Rightarrow> int \<Rightarrow> int \<Rightarrow> byte list \<Rightarrow> byte list option" where
  "parseIPv4Loop [] val digLen octets =
     (if length octets < 3 then None else Some (octets @ [of_int val]))"
| "parseIPv4Loop (c # rest) val digLen octets =
     (if isDigit c then
        (if digLen = 1 \<and> val = 0 then None
         else if 255 < val * 10 + digitVal c then None
         else parseIPv4Loop rest (val * 10 + digitVal c) (digLen + 1) octets)
      else if c = CHR ''.'' then
        (if digLen = 0 \<or> rest = [] then None
         else if length octets = 3 then None
         else parseIPv4Loop rest 0 0 (octets @ [of_int val]))
      else None)"

definition parseIPv4 :: "string \<Rightarrow> byte list option" where
  "parseIPv4 s = parseIPv4Loop s 0 0 []"

text \<open>
  \<open>netip.ParseAddr\<close> looks for the first dot, colon or percent sign. A dot selects the IPv4
  parser. The EC2 field \<open>Vpc.CidrBlock\<close> holds the IPv4 block of the VPC, and IPv6 text is
  outside this model: text whose first such character is a colon is taken as not parsed.
\<close>

definition ParseAddr :: "string \<Rightarrow> byte list option" where
  "ParseAddr s =
     (case find (\<lambda>c. c = CHR ''.'' \<or> c = CHR '':'' \<or> c = CHR ''%'') s of
        Some c \<Rightarrow> (if c = CHR ''.'' then parseIPv4 s else None)
      | None \<Rightarrow> None)"

definition big :: int where
  "big = 0xFFFFFF"

text \<open>\<open>dtoi\<close>: decimal digits at the start of the text, as (number, characters read).\<close>

fun dtoiLoop :: "string \<Rightarrow> int \<Rightarrow> int \<Rightarrow> (int \<times> int) option" where
  "dtoiLoop [] n i = Some (n, i)"
| "dtoiLoop (c # cs) n i =
     (if isDigit c then
        (if big \<le> n * 10 + digitVal c then None
         else dtoiLoop cs (n * 10 + digitVal c) (i + 1))
      else Some (n, i))"

definition dtoi :: "string \<Rightarrow> (int \<times> int) option" where
  "dtoi s =
     (case dtoiLoop s 0 0 of
        None \<Rightarrow> None
      | Some (n, i) \<Rightarrow> if i = 0 then None else Some (n, i))"

text \<open>
  \<open>net.ParseCIDR\<close> for IPv4 text: the address in its 16-byte form and the network, whose
  address is masked and whose mask has 4 bytes.
\<close>

definition ParseCIDR :: "string \<Rightarrow> (IP \<times> IPNet) option" where
  "ParseCIDR s =
     (if CHR ''/'' \<notin> set s then None
      else
        let addr = takeWhile (\<lambda>c. c \<noteq> CHR ''/'') s;
            mask = tl (dropWhile (\<lambda>c. c \<noteq> CHR ''/'') s)
        in case ParseAddr addr of
             None \<Rightarrow> None
           | Some b4 \<Rightarrow>
               (case dtoi mask of
                  None \<Rightarrow> None
                | Some (n, i) \<Rightarrow>
                    if i \<noteq> int (length mask) \<or> n < 0 \<or> 32 < n then None
                    else Some (v4InV6Prefix @ b4,
                               \<lparr>IP = MaskIP (v4InV6Prefix @ b4) (CIDRMask n 32),
                                Mask = CIDRMask n 32\<rparr>)))"

section \<open>The EC2 data the network provider works on\<close>

text \<open>
  The SDK's structs have pointer fields; the fields read by the code are taken as present.
\<close>

record Tag =
  Key :: string
  Value :: string

record Subnet =
  SubnetId :: string
  SubnetVpcId :: string
  SubnetAvailabilityZone :: string
  SubnetCidrBlock :: string
  Tags :: "Tag list"

record Vpc =
  VpcId :: string
  CidrBlock :: string

record AvailabilityZone =
  ZoneName :: string
  State :: string

record CreateSubnetInput =
  InAvailabilityZone :: string
  InCidrBlock :: string
  InVpcId :: string

record CreateTagsInput =
  Resources :: "string list"
  InTags :: "Tag list"

definition defaultAWSPrivateSubnetTagKey :: string where
  "defaultAWSPrivateSubnetTagKey = ''kubernetes.io/role/internal-elb''"

definition defaultSubnetMask :: nat where
  "defaultSubnetMask = 27"

section \<open>Candidate sub-networks of the VPC block\<close>

text \<open>
  \<open>incrementIP\<close>: the four bytes joined into one unsigned integer, the increment added,
  and the sum split into four bytes again. Indexing the result of \<open>To4\<close> panics when the
  address is not an IPv4 address.
\<close>

definition incrementIP :: "IP \<Rightarrow> go_int \<Rightarrow> IP outcome" where
  "incrementIP ip inc =
     (case To4 ip of
        [b0, b1, b2, b3] \<Rightarrow>
          (let joinedBytes0 = push_bit 24 (ucast b0 :: go_uint) + push_bit 16 (ucast b1 :: go_uint)
                 + push_bit 8 (ucast b2 :: go_uint) + (ucast b3 :: go_uint);
               joinedBytes = joinedBytes0 + inc;
               byte3 = (ucast (joinedBytes AND 0xFF) :: byte);
               byte2 = (ucast (drop_bit 8 joinedBytes AND 0xFF) :: byte);
               byte1 = (ucast (drop_bit 16 joinedBytes AND 0xFF) :: byte);
               byte0 = (ucast (drop_bit 24 joinedBytes AND 0xFF) :: byte)
           in Returns (IPv4 byte0 byte1 byte2 byte3))
      | _ \<Rightarrow> Panics IndexOutOfRange)"

fun containsNetwork :: "IPNet list \<Rightarrow> IP \<Rightarrow> bool" where
  "containsNetwork [] toFind = False"
| "containsNetwork (n # ns) toFind = (if Equal (IP n) toFind then True else containsNetwork ns toFind)"

text \<open>
  The loop of \<open>generateAvailableSubnets\<close>, from counter \<open>i\<close> and the networks found so far.
  The counter is a Go \<open>int\<close>; the loop ends only when the incremented address is outside
  \<open>fromCIDR\<close>, so not returning is the value \<open>None\<close>.
\<close>

partial_function (option) generateLoop ::
  "IPNet \<Rightarrow> IP \<Rightarrow> IPMask \<Rightarrow> go_int \<Rightarrow> IPNet list \<Rightarrow> IPNet list outcome option" where
  "generateLoop fromCIDR toIPv4 toMask i networks =
     (case incrementIP toIPv4 i of
        Panics p \<Rightarrow> Some (Panics p)
      | Returns probe \<Rightarrow>
          if \<not> Contains fromCIDR probe then Some (Returns networks)
          else
            (case incrementIP toIPv4 i of
               Panics p \<Rightarrow> Some (Panics p)
             | Returns nextFoundNetwork \<Rightarrow>
                 if containsNetwork networks (MaskIP nextFoundNetwork toMask)
                 then generateLoop fromCIDR toIPv4 toMask (i + 1) networks
                 else generateLoop fromCIDR toIPv4 toMask (i + 1)
                        (networks @ [\<lparr>IP = MaskIP nextFoundNetwork toMask, Mask = toMask\<rparr>])))"

declare generateLoop.simps [code]

definition generateAvailableSubnets :: "IPNet \<Rightarrow> IPNet \<Rightarrow> IPNet list outcome option" where
  "generateAvailableSubnets fromCIDR toCIDR =
     generateLoop fromCIDR (To4 (IP toCIDR)) (Mask toCIDR) 0
       [\<lparr>IP = To4 (IP toCIDR), Mask = Mask toCIDR\<rparr>]"

text \<open>The in-place reversal at the end of \<open>buildSubnetAddress\<close>: swap from both ends.\<close>

function reverseLoop :: "int \<Rightarrow> int \<Rightarrow> 'a list \<Rightarrow> 'a list" where
  "reverseLoop i j networks =
     (if i < j
      then reverseLoop (i + 1) (j - 1)
             (networks[nat i := networks ! nat j, nat j := networks ! nat i])
      else networks)"
  by pat_completeness auto
termination
  by (relation "measure (\<lambda>(i, j, networks). nat (j - i))") auto

text \<open>
  \<open>buildSubnetAddress\<close> returns the candidate list and an error that may be \<open>nil\<close>; a
  \<open>nil\<close> list is the empty list.
\<close>

definition buildSubnetAddress :: "Vpc \<Rightarrow> (IPNet list \<times> error option) outcome option" where
  "buildSubnetAddress vpc =
     (if CidrBlock vpc = [] then Some (Returns ([], Some (ErrNew ''vpc cidr block can't be empty'')))
      else case ParseCIDR (CidrBlock vpc) of
        None \<Rightarrow>
          Some (Returns ([], Wrapf (Some (ParseError (CidrBlock vpc)))
                               (''failed to parse vpc cidr block '' @ CidrBlock vpc)))
      | Some (ip, awsCIDR) \<Rightarrow>
          if defaultSubnetMask \<le> fst (Size (Mask awsCIDR))
          then Some (Returns ([], Some (ErrNew (''vpc cidr block '' @ CidrBlock vpc
                        @ '' cannot contain generated subnet mask /'' @ itoa defaultSubnetMask))))
          else
            (case ParseCIDR (IP_String (IP awsCIDR) @ ''/'' @ itoa defaultSubnetMask) of
               None \<Rightarrow>
                 Some (Returns ([], Wrapf
                   (Some (ParseError (IP_String (IP awsCIDR) @ ''/'' @ itoa defaultSubnetMask)))
                   (''failed to parse cro cidr block ''
                      @ IP_String (IP awsCIDR) @ ''/'' @ itoa defaultSubnetMask)))
             | Some (croIP, croCIDR) \<Rightarrow>
                 (case generateAvailableSubnets awsCIDR croCIDR of
                    None \<Rightarrow> None
                  | Some (Panics p) \<Rightarrow> Some (Panics p)
                  | Some (Returns networks) \<Rightarrow>
                      Some (Returns (reverseLoop 0 (int (length networks) - 1) networks, None)))))"

section \<open>The EC2 service and the cluster\<close>

text \<open>
  The EC2 client is an interface: each operation is a function of the request and the
  state of the service, giving the response and the next state. Nothing is assumed about
  the service. Every request the code issues is appended to a log, so that what was
  requested can be stated. \<open>ReqDeleteSubnet\<close> is the request a rollback would issue.
\<close>

datatype request =
    ReqCreateSubnet CreateSubnetInput
  | ReqCreateTags CreateTagsInput
  | ReqDeleteSubnet string
  | ReqDescribeSubnets
  | ReqDescribeAvailabilityZones
  | ReqDescribeVpcs "string list"

record 's EC2API =
  CreateSubnet :: "CreateSubnetInput \<Rightarrow> 's \<Rightarrow> (error + Subnet) \<times> 's"
  CreateTags :: "CreateTagsInput \<Rightarrow> 's \<Rightarrow> error option \<times> 's"
  DescribeSubnets :: "'s \<Rightarrow> (error + Subnet list) \<times> 's"
  DescribeAvailabilityZones :: "'s \<Rightarrow> (error + AvailabilityZone list) \<times> 's"
  DescribeVpcs :: "string list \<Rightarrow> 's \<Rightarrow> (error + Vpc list) \<times> 's"

record 's world =
  svc :: 's
  log :: "request list"

text \<open>
  What the code reads through the cluster client and the \<open>resources\<close> package, whose
  code is not part of these sources, is given by the environment: the results of
  \<open>GetClusterID\<close> and \<open>GetUserInfraTags\<close>, the tag constants and \<open>MergeTags\<close>.
  \<open>pollRetries\<close> is the number of polls of \<open>wait.PollImmediate\<close> that fit into its
  deadline after the immediate first one.
\<close>

record Env =
  GetClusterID :: "error + string"
  GetOrganizationTag :: string
  TagDisplayName :: string
  defaultSubnetNameTagValue :: string
  BuildManagedTag :: Tag
  GetUserInfraTags :: "error + Tag list option"
  MergeTags :: "Tag list \<Rightarrow> Tag list \<Rightarrow> Tag list"
  clusterOwnedTagKeyPrefix :: string
  pollRetries :: nat

definition callCreateSubnet ::
  "'s EC2API \<Rightarrow> CreateSubnetInput \<Rightarrow> 's world \<Rightarrow> (error + Subnet) \<times> 's world" where
  "callCreateSubnet api inp w =
     (case CreateSubnet api inp (svc w) of
        (r, s') \<Rightarrow> (r, \<lparr>svc = s', log = log w @ [ReqCreateSubnet inp]\<rparr>))"

definition callCreateTags ::
  "'s EC2API \<Rightarrow> CreateTagsInput \<Rightarrow> 's world \<Rightarrow> error option \<times> 's world" where
  "callCreateTags api inp w =
     (case CreateTags api inp (svc w) of
        (r, s') \<Rightarrow> (r, \<lparr>svc = s', log = log w @ [ReqCreateTags inp]\<rparr>))"

definition callDescribeSubnets ::
  "'s EC2API \<Rightarrow> 's world \<Rightarrow> (error + Subnet list) \<times> 's world" where
  "callDescribeSubnets api w =
     (case DescribeSubnets api (svc w) of
        (r, s') \<Rightarrow> (r, \<lparr>svc = s', log = log w @ [ReqDescribeSubnets]\<rparr>))"

definition callDescribeAvailabilityZones ::
  "'s EC2API \<Rightarrow> 's world \<Rightarrow> (error + AvailabilityZone list) \<times> 's world" where
  "callDescribeAvailabilityZones api w =
     (case DescribeAvailabilityZones api (svc w) of
        (r, s') \<Rightarrow> (r, \<lparr>svc = s', log = log w @ [ReqDescribeAvailabilityZones]\<rparr>))"

definition callDescribeVpcs ::
  "'s EC2API \<Rightarrow> string list \<Rightarrow> 's world \<Rightarrow> (error + Vpc list) \<times> 's world" where
  "callDescribeVpcs api ids w =
     (case DescribeVpcs api ids (svc w) of
        (r, s') \<Rightarrow> (r, \<lparr>svc = s', log = log w @ [ReqDescribeVpcs ids]\<rparr>))"

section \<open>Looking up the VPC, its subnets and the zones\<close>

definition getAZs :: "'s EC2API \<Rightarrow> 's world \<Rightarrow> (AvailabilityZone list \<times> error option) \<times> 's world" where
  "getAZs api w =
     (case callDescribeAvailabilityZones api w of
        (Inl err, w') \<Rightarrow> (([], Wrap (Some err) ''error getting availability zones''), w')
      | (Inr azs, w') \<Rightarrow> ((azs, None), w'))"

text \<open>
  \<open>getSubnets\<close> polls \<open>DescribeSubnets\<close>: a failing poll is "not yet", the first
  successful one ends the wait, and running out of polls is the timeout error.
\<close>

fun pollSubnets :: "'s EC2API \<Rightarrow> nat \<Rightarrow> 's world \<Rightarrow> (Subnet list \<times> error option) \<times> 's world" where
  "pollSubnets api 0 w = (([], Some ErrWaitTimeout), w)"
| "pollSubnets api (Suc k) w =
     (case callDescribeSubnets api w of
        (Inl err, w') \<Rightarrow> pollSubnets api k w'
      | (Inr subs, w') \<Rightarrow> ((subs, None), w'))"

definition getSubnets :: "'s EC2API \<Rightarrow> Env \<Rightarrow> 's world \<Rightarrow> (Subnet list \<times> error option) \<times> 's world" where
  "getSubnets api env w = pollSubnets api (Suc (pollRetries env)) w"

definition getOSDClusterTagKey :: "Env \<Rightarrow> string \<Rightarrow> string" where
  "getOSDClusterTagKey env clusterID = clusterOwnedTagKeyPrefix env @ clusterID"

definition getVPCIDByClusterSubnets ::
  "'s EC2API \<Rightarrow> Env \<Rightarrow> string \<Rightarrow> 's world \<Rightarrow> (string \<times> error option) \<times> 's world" where
  "getVPCIDByClusterSubnets api env clusterID w =
     (case callDescribeSubnets api w of
        (Inl err, w') \<Rightarrow> (([], Some err), w')
      | (Inr subs, w') \<Rightarrow>
          (case find (\<lambda>sub. \<exists>tag \<in> set (Tags sub).
                        (Value tag = ''owned'' \<or> Value tag = ''shared'')
                        \<and> Key tag = getOSDClusterTagKey env clusterID) subs of
             Some sub \<Rightarrow> ((SubnetVpcId sub, None), w')
           | None \<Rightarrow>
               (([], Some (ErrNew (''failed to get cluster vpc id, no vpc found with osd cluster tag: could not find cluster associated subnets with clusterID '' @ clusterID))), w')))"

text \<open>\<open>getClusterVpc\<close>: the VPC pointer (\<open>None\<close> is \<open>nil\<close>) and the error.\<close>

definition getClusterVpc ::
  "'s EC2API \<Rightarrow> Env \<Rightarrow> 's world \<Rightarrow> (Vpc option \<times> error option) \<times> 's world" where
  "getClusterVpc api env w =
     (case GetClusterID env of
        Inl err \<Rightarrow> ((None, Wrap (Some err) ''error getting clusterID''), w)
      | Inr clusterID \<Rightarrow>
          (case getVPCIDByClusterSubnets api env clusterID w of
             ((vpcId, Some err), w1) \<Rightarrow>
               ((None, Wrap (Some err) ''error getting vpc id from associated subnets''), w1)
           | ((vpcId, None), w1) \<Rightarrow>
               (case callDescribeVpcs api [vpcId] w1 of
                  (Inl err, w2) \<Rightarrow>
                    ((None, Wrap (Some err) (''error getting vpc with id '' @ vpcId)), w2)
                | (Inr vpcs, w2) \<Rightarrow>
                    if length vpcs = 0 then ((None, Some (ErrNew ''error, no vpc found'')), w2)
                    else if 1 < length vpcs
                    then ((None, Some (ErrNew ''error, more than one vpc found associated with cluster subnets'')), w2)
                    else ((Some (vpcs ! 0), None), w2))))"

text \<open>
  \<open>GetVPCSubnets\<close>. At the \<open>nil\<close> check of the VPC the variable \<open>err\<close> is \<open>nil\<close>, and it
  is this \<open>err\<close> that is wrapped.
\<close>

definition GetVPCSubnets ::
  "'s EC2API \<Rightarrow> Env \<Rightarrow> Vpc option \<Rightarrow> 's world \<Rightarrow> (Subnet list \<times> error option) \<times> 's world" where
  "GetVPCSubnets api env vpc w =
     (case getSubnets api env w of
        ((subs, Some err), w') \<Rightarrow> (([], Wrap (Some err) ''error getting subnets''), w')
      | ((subs, None), w') \<Rightarrow>
          (case vpc of
             None \<Rightarrow> (([], Wrap None ''vpc is nil, need vpc to find associated subnets''), w')
           | Some v \<Rightarrow>
               if filter (\<lambda>sub. SubnetVpcId sub = VpcId v) subs = []
               then (([], Some (ErrNew ''error, unable to find subnets associated with cluster vpc'')), w')
               else ((filter (\<lambda>sub. SubnetVpcId sub = VpcId v) subs, None), w')))"

section \<open>Creating and tagging a private subnet\<close>

text \<open>\<open>genericListToEc2TagList\<close> copies key and value, so one tag type serves for both.\<close>

definition getDefaultSubnetTags :: "Env \<Rightarrow> Tag list \<times> error option" where
  "getDefaultSubnetTags env =
     (case GetClusterID env of
        Inl err \<Rightarrow> ([], Wrap (Some err) ''error getting clusterID'')
      | Inr clusterID \<Rightarrow>
          (case GetUserInfraTags env of
             Inl err \<Rightarrow> ([], Wrapf (Some err) ''Failed to get user infrastructure tags'')
           | Inr None \<Rightarrow>
               ([\<lparr>Key = defaultAWSPrivateSubnetTagKey, Value = ''1''\<rparr>,
                 \<lparr>Key = GetOrganizationTag env @ ''clusterID'', Value = clusterID\<rparr>,
                 \<lparr>Key = TagDisplayName env, Value = defaultSubnetNameTagValue env\<rparr>,
                 BuildManagedTag env], None)
           | Inr (Some infraTags) \<Rightarrow>
               (MergeTags env
                  [\<lparr>Key = defaultAWSPrivateSubnetTagKey, Value = ''1''\<rparr>,
                   \<lparr>Key = GetOrganizationTag env @ ''clusterID'', Value = clusterID\<rparr>,
                   \<lparr>Key = TagDisplayName env, Value = defaultSubnetNameTagValue env\<rparr>,
                   BuildManagedTag env]
                  infraTags, None)))"

definition tagPrivateSubnet ::
  "'s EC2API \<Rightarrow> Env \<Rightarrow> Subnet \<Rightarrow> 's world \<Rightarrow> error option \<times> 's world" where
  "tagPrivateSubnet api env sub w =
     (case getDefaultSubnetTags env of
        (tags, Some err) \<Rightarrow> (Some err, w)
      | (tags, None) \<Rightarrow>
          (case callCreateTags api \<lparr>Resources = [SubnetId sub], InTags = tags\<rparr> w of
             (Some err, w') \<Rightarrow> (Wrap (Some err) ''failed to tag subnet'', w')
           | (None, w') \<Rightarrow> (None, w')))"

text \<open>
  The test of the creation error: it is an \<open>awserr.Error\<close> with the code
  \<open>InvalidSubnet.Conflict\<close>.
\<close>

fun isSubnetConflict :: "error \<Rightarrow> bool" where
  "isSubnetConflict (AwsError code msg) = (code = ''InvalidSubnet.Conflict'')"
| "isSubnetConflict err = False"

definition subnetInput :: "Vpc \<Rightarrow> string \<Rightarrow> IPNet \<Rightarrow> CreateSubnetInput" where
  "subnetInput vpc zone ip =
     \<lparr>InAvailabilityZone = zone, InCidrBlock = IPNet_String ip, InVpcId = VpcId vpc\<rparr>"

text \<open>
  The loop of \<open>createPrivateSubnet\<close> over the candidates, with what follows it: the result
  is the subnet pointer (\<open>None\<close> is \<open>nil\<close>) and the error. After the last candidate the
  variable \<open>subnet\<close> is still \<open>nil\<close>, the body of \<open>if subnet == nil\<close> is empty, and
  \<open>subnet, nil\<close> is returned.
\<close>

fun createSubnetLoop ::
  "'s EC2API \<Rightarrow> Env \<Rightarrow> Vpc \<Rightarrow> string \<Rightarrow> IPNet list \<Rightarrow> 's world
     \<Rightarrow> (Subnet option \<times> error option) \<times> 's world" where
  "createSubnetLoop api env vpc zone [] w = ((None, None), w)"
| "createSubnetLoop api env vpc zone (ip # subs) w =
     (case callCreateSubnet api (subnetInput vpc zone ip) w of
        (Inl err, w1) \<Rightarrow>
          if isSubnetConflict err then createSubnetLoop api env vpc zone subs w1
          else ((None, Wrap (Some err) ''error creating new subnet''), w1)
      | (Inr created, w1) \<Rightarrow>
          (case tagPrivateSubnet api env created w1 of
             (Some newErr, w2) \<Rightarrow> ((None, Some newErr), w2)
           | (None, w2) \<Rightarrow> ((Some created, None), w2)))"

definition createPrivateSubnet ::
  "'s EC2API \<Rightarrow> Env \<Rightarrow> Vpc option \<Rightarrow> string \<Rightarrow> 's world
     \<Rightarrow> ((Subnet option \<times> error option) outcome \<times> 's world) option" where
  "createPrivateSubnet api env vpc zone w =
     (case vpc of
        None \<Rightarrow> Some (Panics NilDereference, w)
      | Some v \<Rightarrow>
          (case buildSubnetAddress v of
             None \<Rightarrow> None
           | Some (Panics p) \<Rightarrow> Some (Panics p, w)
           | Some (Returns (subs, Some err)) \<Rightarrow>
               Some (Returns (None, Wrap (Some err) ''failed to build subnets''), w)
           | Some (Returns (subs, None)) \<Rightarrow>
               (case createSubnetLoop api env v zone subs w of
                  (r, w') \<Rightarrow> Some (Returns r, w'))))"

section \<open>Reconciling the zones\<close>

text \<open>
  The list of private subnets holds pointers: the result of \<open>createPrivateSubnet\<close> is
  appended as it is, and reading a field of a \<open>nil\<close> entry panics.
\<close>

fun privateSubnetExists :: "Subnet option list \<Rightarrow> AvailabilityZone \<Rightarrow> bool outcome" where
  "privateSubnetExists [] zone = Returns False"
| "privateSubnetExists (None # privSubs) zone = Panics NilDereference"
| "privateSubnetExists (Some subnet # privSubs) zone =
     (if SubnetAvailabilityZone subnet = ZoneName zone \<and> State zone = ''available''
      then Returns True
      else privateSubnetExists privSubs zone)"

text \<open>The filter on the tag key: a subnet is appended once for every tag with the key.\<close>

definition taggedPrivate :: "Subnet list \<Rightarrow> Subnet option list" where
  "taggedPrivate subs =
     concat (map (\<lambda>sub. map (\<lambda>tags. Some sub)
                           (filter (\<lambda>tags. Key tags = defaultAWSPrivateSubnetTagKey) (Tags sub)))
                 subs)"

text \<open>The loop over the zones, with the private subnets known so far.\<close>

fun reconcileZones ::
  "'s EC2API \<Rightarrow> Env \<Rightarrow> Vpc option \<Rightarrow> AvailabilityZone list \<Rightarrow> Subnet option list \<Rightarrow> 's world
     \<Rightarrow> ((Subnet option list \<times> error option) outcome \<times> 's world) option" where
  "reconcileZones api env foundVPC [] privSubs w = Some (Returns (privSubs, None), w)"
| "reconcileZones api env foundVPC (az # azs) privSubs w =
     (case privateSubnetExists privSubs az of
        Panics p \<Rightarrow> Some (Panics p, w)
      | Returns True \<Rightarrow> reconcileZones api env foundVPC azs privSubs w
      | Returns False \<Rightarrow>
          (case createPrivateSubnet api env foundVPC (ZoneName az) w of
             None \<Rightarrow> None
           | Some (Panics p, w') \<Rightarrow> Some (Panics p, w')
           | Some (Returns (subnet, Some err), w') \<Rightarrow>
               Some (Returns ([], Wrap (Some err) ''failed to created private subnet''), w')
           | Some (Returns (subnet, None), w') \<Rightarrow>
               reconcileZones api env foundVPC azs (privSubs @ [subnet]) w'))"

fun subnetIDs :: "Subnet option list \<Rightarrow> string list outcome" where
  "subnetIDs [] = Returns []"
| "subnetIDs (None # privSubs) = Panics NilDereference"
| "subnetIDs (Some sub # privSubs) =
     (case subnetIDs privSubs of
        Panics p \<Rightarrow> Panics p
      | Returns ids \<Rightarrow> Returns (SubnetId sub # ids))"

definition GetPrivateSubnetIDS ::
  "'s EC2API \<Rightarrow> Env \<Rightarrow> 's world \<Rightarrow> ((string list \<times> error option) outcome \<times> 's world) option" where
  "GetPrivateSubnetIDS api env w =
     (case getClusterVpc api env w of
        ((foundVPC, Some err), w1) \<Rightarrow> Some (Returns ([], Wrap (Some err) ''error getting vpcs''), w1)
      | ((foundVPC, None), w1) \<Rightarrow>
          (case GetVPCSubnets api env foundVPC w1 of
             ((subs, Some err), w2) \<Rightarrow>
               Some (Returns ([], Wrap (Some err) ''error getting vpc subnets''), w2)
           | ((subs, None), w2) \<Rightarrow>
               (case getAZs api w2 of
                  ((azs, Some err), w3) \<Rightarrow>
                    Some (Returns ([], Wrap (Some err) ''error getting availability zones''), w3)
                | ((azs, None), w3) \<Rightarrow>
                    (case reconcileZones api env foundVPC azs (taggedPrivate subs) w3 of
                       None \<Rightarrow> None
                     | Some (Panics p, w4) \<Rightarrow> Some (Panics p, w4)
                     | Some (Returns (privSubs, Some err), w4) \<Rightarrow> Some (Returns ([], Some err), w4)
                     | Some (Returns (privSubs, None), w4) \<Rightarrow>
                         (case subnetIDs privSubs of
                            Panics p \<Rightarrow> Some (Panics p, w4)
                          | Returns subIDs \<Rightarrow>
                              if subIDs = []
                              then Some (Returns ([], Some (ErrNew ''failed to get list of private subnet ids'')), w4)
                              else Some (Returns (subIDs, None), w4))))))"

section \<open>An example cluster and a simulated service\<close>

text \<open>
  The concrete inputs of the examples below: an environment, a small VPC, and a service
  that keeps the list of subnets, rejects a block that is already taken with the conflict
  code, and can be told to fail every creation or every tagging with a given error.
\<close>

definition exampleEnv :: Env where
  "exampleEnv =
     \<lparr>GetClusterID = Inr ''c1'', GetOrganizationTag = ''integreatly.org/'',
      TagDisplayName = ''Name'', defaultSubnetNameTagValue = ''Cloud Resource Subnet'',
      BuildManagedTag = \<lparr>Key = ''red-hat-managed'', Value = ''true''\<rparr>,
      GetUserInfraTags = Inr None, MergeTags = (\<lambda>tags infra. tags @ infra),
      clusterOwnedTagKeyPrefix = ''kubernetes.io/cluster/'', pollRetries = 2\<rparr>"


definition addTags :: "CreateTagsInput \<Rightarrow> Subnet \<Rightarrow> Subnet" where
  "addTags inp sub =
     (if SubnetId sub \<in> set (Resources inp) then sub\<lparr>Tags := Tags sub @ InTags inp\<rparr> else sub)"

definition newSubnet :: "CreateSubnetInput \<Rightarrow> Subnet" where
  "newSubnet inp =
     \<lparr>SubnetId = ''subnet-'' @ InCidrBlock inp, SubnetVpcId = InVpcId inp,
      SubnetAvailabilityZone = InAvailabilityZone inp,
      SubnetCidrBlock = InCidrBlock inp, Tags = []\<rparr>"

definition simulatedEC2 ::
  "AvailabilityZone list \<Rightarrow> Vpc list \<Rightarrow> error option \<Rightarrow> error option \<Rightarrow> (Subnet list) EC2API" where
  "simulatedEC2 zones vpcs createFault tagFault =
     \<lparr>CreateSubnet = (\<lambda>inp subs.
        case createFault of
          Some err \<Rightarrow> (Inl err, subs)
        | None \<Rightarrow>
            if \<exists>sub \<in> set subs. SubnetCidrBlock sub = InCidrBlock inp
            then (Inl (AwsError ''InvalidSubnet.Conflict'' (InCidrBlock inp)), subs)
            else (Inr (newSubnet inp), subs @ [newSubnet inp])),
      CreateTags = (\<lambda>inp subs.
        case tagFault of
          Some err \<Rightarrow> (Some err, subs)
        | None \<Rightarrow> (None, map (addTags inp) subs)),
      DescribeSubnets = (\<lambda>subs. (Inr subs, subs)),
      DescribeAvailabilityZones = (\<lambda>subs. (Inr zones, subs)),
      DescribeVpcs = (\<lambda>ids subs. (Inr (filter (\<lambda>v. VpcId v \<in> set ids) vpcs), subs))\<rparr>"





section \<open>Notions the properties are stated with\<close>

text \<open>
  The recursive equations of \<open>itoa\<close> and of the reversal loop are unfolded by hand.
\<close>

declare itoa.simps [simp del]

declare reverseLoop.simps [simp del]

text \<open>
  An IPv4 address of four bytes as one 32-bit number, most significant byte first, and
  back; \<open>packed\<close> is this number for an address in either form.
\<close>

definition ipWord :: "IP \<Rightarrow> 32 word" where
  "ipWord ip =
     (case ip of
        [a, b, c, d] \<Rightarrow> push_bit 24 (ucast a) + push_bit 16 (ucast b) + push_bit 8 (ucast c) + ucast d
      | _ \<Rightarrow> 0)"

definition wordIP :: "32 word \<Rightarrow> IP" where
  "wordIP w = [ucast (drop_bit 24 w), ucast (drop_bit 16 w), ucast (drop_bit 8 w), ucast w]"

definition packed :: "IP \<Rightarrow> nat" where
  "packed ip = unat (ipWord (To4 ip))"

text \<open>
  The prefix length of a network as \<open>buildSubnetAddress\<close> reads it, the mask of a /27
  network, and the \<open>k\<close>-th block of 32 addresses above a base address.
\<close>

definition prefixLen :: "IPNet \<Rightarrow> nat" where
  "prefixLen n = fst (Size (Mask n))"

definition mask27 :: IPMask where
  "mask27 = [255, 255, 255, 224]"

definition subBlock :: "32 word \<Rightarrow> IPMask \<Rightarrow> nat \<Rightarrow> IPNet" where
  "subBlock b m k = \<lparr>IP = wordIP (b + of_nat (32 * k)), Mask = m\<rparr>"

text \<open>One byte of a CIDR mask with \<open>n\<close> ones left, and a number below 256 in decimal.\<close>

definition maskByte :: "nat \<Rightarrow> byte" where
  "maskByte n = (if 8 \<le> n then 0xff else NOT (drop_bit n (0xff :: byte)))"

definition decimal :: "nat \<Rightarrow> string" where
  "decimal n =
     (if n < 10 then [digit n]
      else if n < 100 then [digit (n div 10), digit (n mod 10)]
      else [digit (n div 100), digit (n div 10 mod 10), digit (n mod 10)])"

section \<open>Bytes of an address and its 32-bit value\<close>

lemma join_or:
  fixes a b c d :: byte
  shows "push_bit 24 (ucast a :: 'a::len word) + push_bit 16 (ucast b) + push_bit 8 (ucast c) + ucast d
       = ((push_bit 24 (ucast a :: 'a word) OR push_bit 16 (ucast b)) OR push_bit 8 (ucast c)) OR ucast d"
proof -
  have 1: "push_bit 24 (ucast a :: 'a word) + push_bit 16 (ucast b) = push_bit 24 (ucast a) OR push_bit 16 (ucast b)"
    by (rule disjunctive_add_eq_or) (auto simp: bit_eq_iff bit_simps dest: bit_imp_le_length)
  have 2: "(push_bit 24 (ucast a :: 'a word) OR push_bit 16 (ucast b)) + push_bit 8 (ucast c)
         = (push_bit 24 (ucast a) OR push_bit 16 (ucast b)) OR push_bit 8 (ucast c)"
    by (rule disjunctive_add_eq_or) (auto simp: bit_eq_iff bit_simps dest: bit_imp_le_length)
  have 3: "((push_bit 24 (ucast a :: 'a word) OR push_bit 16 (ucast b)) OR push_bit 8 (ucast c)) + ucast d
         = ((push_bit 24 (ucast a) OR push_bit 16 (ucast b)) OR push_bit 8 (ucast c)) OR ucast d"
    by (rule disjunctive_add_eq_or) (auto simp: bit_eq_iff bit_simps dest: bit_imp_le_length)
  show ?thesis by (simp only: 1 2 3)
qed

lemma ipWord_wordIP: "ipWord (wordIP w) = w"
  unfolding ipWord_def wordIP_def list.case join_or
proof (rule bit_word_eqI)
  fix n assume "n < LENGTH(32)"
  then have n: "n < 32" by simp
  consider "n < 8" | "8 \<le> n" "n < 16" | "16 \<le> n" "n < 24" | "24 \<le> n" "n < 32"
    using n by linarith
  then show "bit (((push_bit 24 (ucast (ucast (drop_bit 24 w) :: byte)) OR
            push_bit 16 (ucast (ucast (drop_bit 16 w) :: byte))) OR
            push_bit 8 (ucast (ucast (drop_bit 8 w) :: byte))) OR ucast (ucast w :: byte) :: 32 word) n = bit w n"
    by cases (auto simp: bit_simps)
qed

lemma wordIP_ipWord: "wordIP (ipWord [a, b, c, d]) = [a, b, c, d]"
  unfolding ipWord_def wordIP_def list.case join_or
  by (auto simp: bit_eq_iff bit_simps dest: bit_imp_le_length)


lemma join64:
  fixes w :: "32 word"
  shows "push_bit 24 (ucast (ucast (drop_bit 24 w) :: byte) :: 64 word)
         + push_bit 16 (ucast (ucast (drop_bit 16 w) :: byte))
         + push_bit 8 (ucast (ucast (drop_bit 8 w) :: byte))
         + ucast (ucast w :: byte) = ucast w"
  unfolding join_or
proof (rule bit_word_eqI)
  fix n assume "n < LENGTH(64)"
  then have n: "n < 64" by simp
  consider "n < 8" | "8 \<le> n" "n < 16" | "16 \<le> n" "n < 24" | "24 \<le> n" "n < 32" | "32 \<le> n"
    using n by linarith
  then show "bit (((push_bit 24 (ucast (ucast (drop_bit 24 w) :: byte)) OR
            push_bit 16 (ucast (ucast (drop_bit 16 w) :: byte))) OR
            push_bit 8 (ucast (ucast (drop_bit 8 w) :: byte))) OR ucast (ucast w :: byte) :: 64 word) n
          = bit (ucast w :: 64 word) n"
    by cases (auto simp: bit_simps dest: bit_imp_le_length)
qed

lemma ucast_down_add:
  fixes x y :: "64 word"
  shows "(ucast (x + y) :: 32 word) = ucast x + ucast y"
proof -
  have t: "take_bit 32 (a + b) = take_bit 32 (take_bit 64 a + take_bit 64 b)" for a b :: int
  proof -
    have "take_bit 32 (take_bit 64 a + take_bit 64 b)
        = take_bit 32 (take_bit 32 (take_bit 64 a) + take_bit 32 (take_bit 64 b))"
      by (simp only: take_bit_add)
    also have "\<dots> = take_bit 32 (take_bit 32 a + take_bit 32 b)"
      by simp
    also have "\<dots> = take_bit 32 (a + b)"
      by (simp only: take_bit_add)
    finally show ?thesis by simp
  qed
  show ?thesis by transfer (simp add: t [symmetric])
qed

lemma ucast_up_down [simp]:
  fixes w :: "32 word"
  shows "(ucast (ucast w :: 64 word) :: 32 word) = w"
  by (rule bit_word_eqI) (auto simp: bit_simps)

lemma low_byte:
  fixes J :: "64 word"
  shows "(ucast (J AND 0xFF) :: byte) = ucast (ucast J :: 32 word)"
proof -
  have m: "(0xFF :: 64 word) = mask 8" by (simp add: mask_eq_exp_minus_1)
  show ?thesis unfolding m by (rule bit_word_eqI) (auto simp: bit_simps)
qed

lemma shifted_byte:
  fixes J :: "64 word"
  assumes "k \<le> 24"
  shows "(ucast (drop_bit k J AND 0xFF) :: byte) = ucast (drop_bit k (ucast J :: 32 word))"
proof -
  have m: "(0xFF :: 64 word) = mask 8" by (simp add: mask_eq_exp_minus_1)
  show ?thesis unfolding m using assms by (intro bit_word_eqI) (auto simp: bit_simps)
qed

lemma To4_wordIP [simp]: "To4 (wordIP w) = wordIP w"
  by (simp add: To4_def wordIP_def)

lemma incrementIP_wordIP:
  "incrementIP (wordIP w) i = Returns (v4InV6Prefix @ wordIP (w + ucast i))"
proof -
  have j: "(ucast (ucast w + i :: 64 word) :: 32 word) = w + ucast i"
    by (simp add: ucast_down_add)
  have le8: "(8::nat) \<le> 24" and le16: "(16::nat) \<le> 24" and le24: "(24::nat) \<le> 24"
    by simp_all
  have "incrementIP (wordIP w) i = (case wordIP w of
        [b0, b1, b2, b3] \<Rightarrow>
          (let joinedBytes0 = push_bit 24 (ucast b0 :: go_uint) + push_bit 16 (ucast b1 :: go_uint)
                 + push_bit 8 (ucast b2 :: go_uint) + (ucast b3 :: go_uint);
               joinedBytes = joinedBytes0 + i;
               byte3 = (ucast (joinedBytes AND 0xFF) :: byte);
               byte2 = (ucast (drop_bit 8 joinedBytes AND 0xFF) :: byte);
               byte1 = (ucast (drop_bit 16 joinedBytes AND 0xFF) :: byte);
               byte0 = (ucast (drop_bit 24 joinedBytes AND 0xFF) :: byte)
           in Returns (IPv4 byte0 byte1 byte2 byte3))
      | _ \<Rightarrow> Panics IndexOutOfRange)"
    by (simp only: incrementIP_def To4_wordIP)
  also have "\<dots> = Returns (v4InV6Prefix @ wordIP (w + ucast i))"
    unfolding wordIP_def list.case Let_def join64 IPv4_def
    by (simp only: low_byte [of "ucast w + i"] shifted_byte [OF le8, of "ucast w + i"]
          shifted_byte [OF le16, of "ucast w + i"] shifted_byte [OF le24, of "ucast w + i"] j)
  finally show ?thesis .
qed

lemma wordIP_inj [simp]: "wordIP a = wordIP b \<longleftrightarrow> a = b"
  by (metis ipWord_wordIP)

lemma length_wordIP [simp]: "length (wordIP w) = 4"
  by (simp add: wordIP_def)

lemma wordIP_and:
  "map (\<lambda>(x, m). x AND m) (zip (wordIP a) (wordIP b)) = wordIP (a AND b)"
  unfolding wordIP_def
  by (simp, intro conjI; rule bit_word_eqI) (auto simp: bit_simps)

lemma To4_prefixed [simp]: "To4 (v4InV6Prefix @ wordIP w) = wordIP w"
  by (simp add: To4_def v4InV6Prefix_def)

lemma MaskIP_prefixed: "MaskIP (v4InV6Prefix @ wordIP x) (wordIP m) = wordIP (x AND m)"
  unfolding MaskIP_def Let_def
  by (simp add: wordIP_and) (simp add: v4InV6Prefix_def)

lemma Equal_wordIP [simp]: "Equal (wordIP a) (wordIP b) \<longleftrightarrow> a = b"
  by (simp add: Equal_def)

lemma all_less_4: "(\<forall>i<(4::nat). P i) \<longleftrightarrow> P 0 \<and> P 1 \<and> P 2 \<and> P 3"
proof
  assume "\<forall>i<4. P i"
  then show "P 0 \<and> P 1 \<and> P 2 \<and> P 3" by simp
next
  assume a: "P 0 \<and> P 1 \<and> P 2 \<and> P 3"
  show "\<forall>i<4. P i"
  proof (intro allI impI)
    fix i :: nat
    assume "i < 4"
    then consider "i = 0" | "i = 1" | "i = 2" | "i = 3" by linarith
    then show "P i" using a by cases simp_all
  qed
qed

lemma Contains_wordIP:
  "Contains \<lparr>IP = wordIP b, Mask = wordIP m\<rparr> (v4InV6Prefix @ wordIP x)
     \<longleftrightarrow> b AND m = x AND m"
proof -
  have n: "networkNumberAndMask \<lparr>IP = wordIP b, Mask = wordIP m\<rparr> = (wordIP b, wordIP m)"
    by (simp add: networkNumberAndMask_def Let_def) (simp add: wordIP_def)
  have "Contains \<lparr>IP = wordIP b, Mask = wordIP m\<rparr> (v4InV6Prefix @ wordIP x)
     \<longleftrightarrow> (\<forall>i<4. (wordIP b ! i) AND (wordIP m ! i) = (wordIP x ! i) AND (wordIP m ! i))"
    by (simp add: Contains_def n Let_def) (simp add: wordIP_def)
  also have "\<dots> \<longleftrightarrow> map (\<lambda>(x, m). x AND m) (zip (wordIP b) (wordIP m))
                    = map (\<lambda>(x, m). x AND m) (zip (wordIP x) (wordIP m))"
    unfolding all_less_4 by (simp add: wordIP_def)
  also have "\<dots> \<longleftrightarrow> b AND m = x AND m"
    by (simp only: wordIP_and wordIP_inj)
  finally show ?thesis .
qed

lemma and_not_mask_eq: "x AND NOT (mask n) = x - take_bit n x" for x :: "'a::len word"
proof -
  have "NOT x AND take_bit n x = 0"
    by (rule bit_word_eqI) (auto simp: bit_simps)
  then have "x - take_bit n x = x AND NOT (take_bit n x)"
    by (rule disjunctive_diff_eq_and_not)
  also have "\<dots> = x AND NOT (mask n)"
    by (rule bit_word_eqI) (auto simp: bit_simps)
  finally show ?thesis by simp
qed

lemma word_take_bit_add:
  "take_bit n (take_bit n a + take_bit n b) = take_bit n (a + b)" for a b :: "'a::len word"
  by transfer (simp add: take_bit_add min_def)

lemma take_bit_aligned_add:
  fixes b :: "32 word"
  assumes "take_bit n b = 0"
  shows "take_bit n (b + of_nat k) = of_nat (k mod 2 ^ n)"
proof -
  have "take_bit n (b + of_nat k) = take_bit n (take_bit n b + take_bit n (of_nat k :: 32 word))"
    by (simp only: word_take_bit_add)
  also have "\<dots> = take_bit n (of_nat k :: 32 word)"
    using assms by simp
  also have "\<dots> = of_nat (k mod 2 ^ n)"
    by (simp only: take_bit_of_nat take_bit_nat_def)
  finally show ?thesis .
qed

lemma masked_aligned_add:
  fixes b :: "32 word"
  assumes "take_bit n b = 0"
  shows "(b + of_nat k) AND NOT (mask n) = b + of_nat (2 ^ n * (k div 2 ^ n))"
proof -
  have k: "k = 2 ^ n * (k div 2 ^ n) + k mod 2 ^ n" by simp
  have "(b + of_nat k) AND NOT (mask n) = b + of_nat k - of_nat (k mod 2 ^ n)"
    by (simp add: and_not_mask_eq take_bit_aligned_add [OF assms])
  also have "\<dots> = b + of_nat (2 ^ n * (k div 2 ^ n) + k mod 2 ^ n) - of_nat (k mod 2 ^ n)"
    using k by simp
  also have "\<dots> = b + of_nat (2 ^ n * (k div 2 ^ n))"
    by (simp only: of_nat_add) simp
  finally show ?thesis .
qed

section \<open>The generation loop\<close>

lemma containsNetwork_iff:
  "containsNetwork ns t \<longleftrightarrow> (\<exists>n \<in> set ns. Equal (IP n) t)"
  by (induction ns) auto

lemma of_nat_32_inj:
  assumes "i < 2 ^ 32" and "j < 2 ^ 32" and "(of_nat i :: 32 word) = of_nat j"
  shows "i = j"
proof -
  have "unat (of_nat i :: 32 word) = i" "unat (of_nat j :: 32 word) = j"
    using assms(1,2) by (simp_all add: unat_of_nat)
  with assms(3) show ?thesis by metis
qed

lemma containsNetwork_subBlocks:
  assumes "j < 2 ^ 27" and "c \<le> 2 ^ 27"
  shows "containsNetwork (map (subBlock b m) [0..<c]) (wordIP (b + of_nat (32 * j))) \<longleftrightarrow> j < c"
proof -
  have "containsNetwork (map (subBlock b m) [0..<c]) (wordIP (b + of_nat (32 * j)))
      \<longleftrightarrow> (\<exists>i<c. (of_nat (32 * i) :: 32 word) = of_nat (32 * j))"
    by (auto simp: containsNetwork_iff subBlock_def)
  also have "\<dots> \<longleftrightarrow> j < c"
  proof
    assume "\<exists>i<c. (of_nat (32 * i) :: 32 word) = of_nat (32 * j)"
    then obtain i where i: "i < c" and e: "(of_nat (32 * i) :: 32 word) = of_nat (32 * j)"
      by blast
    have "32 * i < 2 ^ 32" "32 * j < 2 ^ 32" using i assms by simp_all
    then have "32 * i = 32 * j" using e by (rule of_nat_32_inj)
    then show "j < c" using i by simp
  next
    assume "j < c"
    then show "\<exists>i<c. (of_nat (32 * i) :: 32 word) = of_nat (32 * j)" by blast
  qed
  finally show ?thesis .
qed

lemma ucast_of_nat_64_32: "(ucast (of_nat k :: 64 word) :: 32 word) = of_nat k"
  by transfer (simp add: take_bit_of_nat min_def)

lemma aligned_5:
  fixes b :: "32 word"
  assumes "take_bit n b = 0" and "5 \<le> n"
  shows "take_bit 5 b = 0"
proof -
  have "take_bit 5 (take_bit n b) = take_bit 5 b"
    using assms(2) by (simp add: take_bit_take_bit min_def)
  then show ?thesis using assms(1) by simp
qed

lemma inside_iff:
  fixes b :: "32 word"
  assumes al: "take_bit n b = 0" and n: "n < 32" and k: "k \<le> 2 ^ n"
  shows "b AND NOT (mask n) = (b + of_nat k) AND NOT (mask n) \<longleftrightarrow> k < 2 ^ n"
proof -
  have l: "b AND NOT (mask n) = b"
    using al by (simp add: and_not_mask_eq)
  have r: "(b + of_nat k) AND NOT (mask n) = b + of_nat (2 ^ n * (k div 2 ^ n))"
    by (rule masked_aligned_add [OF al])
  show ?thesis
  proof (cases "k < 2 ^ n")
    case True
    then show ?thesis by (simp add: l r)
  next
    case False
    with k have e: "k = 2 ^ n" by simp
    have z: "(2 ^ n :: 32 word) \<noteq> 0"
      using n by (simp add: exp_eq_zero_iff)
    have "(b + 2 ^ n) AND NOT (mask n) = b + 2 ^ n"
      using masked_aligned_add [OF al, of "2 ^ n"] by simp
    then have "(b + of_nat k) AND NOT (mask n) \<noteq> b"
      using z e by simp
    then show ?thesis using e l by simp
  qed
qed

lemma pred_div_le: "(k - 1) div 32 \<le> k div 32" for k :: nat
  by (rule div_le_mono) simp

lemma div_le_Suc_pred: "k div 32 \<le> Suc ((k - 1) div 32)" for k :: nat
proof -
  have "k div 32 \<le> ((k - 1) + 32) div 32" by (rule div_le_mono) simp
  then show ?thesis by simp
qed

lemma blocks_at_end: "Suc ((32 * Suc u - 1) div 32) = Suc u"
proof -
  have "32 * Suc u - 1 = 31 + u * 32" by simp
  then have "(32 * Suc u - 1) div 32 = (31 + u * 32) div 32" by simp
  also have "\<dots> = u" by simp
  finally show ?thesis by simp
qed

lemma generateLoop_from:
  fixes b :: "32 word"
  assumes al: "take_bit n b = 0" and n5: "5 \<le> n" and n32: "n < 32" and k: "k \<le> 2 ^ n"
  shows "generateLoop \<lparr>IP = wordIP b, Mask = wordIP (NOT (mask n))\<rparr> (wordIP b)
           (wordIP (NOT (mask 5))) (of_nat k)
           (map (subBlock b (wordIP (NOT (mask 5)))) [0..<Suc ((k - 1) div 32)])
         = Some (Returns (map (subBlock b (wordIP (NOT (mask 5)))) [0..<2 ^ n div 32]))"
  using k
proof (induction "2 ^ n - k" arbitrary: k)
  case 0
  then have e: "k = 2 ^ n" by simp
  have "(2::nat) ^ n = 2 ^ (5 + (n - 5))"
    using n5 by simp
  also have "\<dots> = 2 ^ 5 * 2 ^ (n - 5)"
    by (rule power_add)
  finally have p: "(2::nat) ^ n = 32 * 2 ^ (n - 5)"
    by simp
  obtain u where u: "(2::nat) ^ (n - 5) = Suc u"
    by (metis not0_implies_Suc power_not_zero zero_neq_numeral)
  have d: "Suc (((2::nat) ^ n - 1) div 32) = 2 ^ n div 32"
    unfolding p u by (simp only: blocks_at_end) simp
  have c: "\<not> Contains \<lparr>IP = wordIP b, Mask = wordIP (NOT (mask n))\<rparr>
             (v4InV6Prefix @ wordIP (b + of_nat k))"
    using inside_iff [OF al n32, of k] e by (simp add: Contains_wordIP)
  have "generateLoop \<lparr>IP = wordIP b, Mask = wordIP (NOT (mask n))\<rparr> (wordIP b)
           (wordIP (NOT (mask 5))) (of_nat k)
           (map (subBlock b (wordIP (NOT (mask 5)))) [0..<Suc ((k - 1) div 32)])
        = Some (Returns (map (subBlock b (wordIP (NOT (mask 5)))) [0..<Suc ((k - 1) div 32)]))"
    by (subst generateLoop.simps)
       (simp only: incrementIP_wordIP ucast_of_nat_64_32 c outcome.case simp_thms if_True)
  then show ?case unfolding e d .
next
  case (Suc d)
  then have lt: "k < 2 ^ n" by simp
  have c: "Contains \<lparr>IP = wordIP b, Mask = wordIP (NOT (mask n))\<rparr>
             (v4InV6Prefix @ wordIP (b + of_nat k))"
    using inside_iff [OF al n32, of k] lt by (simp add: Contains_wordIP)
  have m: "MaskIP (v4InV6Prefix @ wordIP (b + of_nat k)) (wordIP (NOT (mask 5)))
         = wordIP (b + of_nat (32 * (k div 32)))"
    using masked_aligned_add [OF aligned_5 [OF al n5], of k] by (simp add: MaskIP_prefixed)
  have "(2::nat) ^ n \<le> 2 ^ 31" using n32 by (intro power_increasing) simp_all
  then have k31: "k < 2 ^ 31" using lt by simp
  then have j: "k div 32 < 2 ^ 27" by simp
  have "(k - 1) div 32 < 2 ^ 27" using k31 by simp
  then have cb: "Suc ((k - 1) div 32) \<le> 2 ^ 27" by simp
  have ih: "generateLoop \<lparr>IP = wordIP b, Mask = wordIP (NOT (mask n))\<rparr> (wordIP b)
           (wordIP (NOT (mask 5))) (of_nat (Suc k))
           (map (subBlock b (wordIP (NOT (mask 5)))) [0..<Suc (k div 32)])
         = Some (Returns (map (subBlock b (wordIP (NOT (mask 5)))) [0..<2 ^ n div 32]))"
    using Suc.hyps(1) [of "Suc k"] Suc.hyps(2) lt by simp
  have s: "(of_nat k :: 64 word) + 1 = of_nat (Suc k)" by simp
  have cn: "containsNetwork (map (subBlock b (wordIP (NOT (mask 5)))) [0..<Suc ((k - 1) div 32)])
              (wordIP (b + of_nat (32 * (k div 32)))) \<longleftrightarrow> k div 32 < Suc ((k - 1) div 32)"
    by (rule containsNetwork_subBlocks [OF j cb])
  show ?case
  proof (cases "k div 32 < Suc ((k - 1) div 32)")
    case True
    then have e: "Suc ((k - 1) div 32) = Suc (k div 32)"
      using pred_div_le [of k] by simp
    show ?thesis
      apply (subst generateLoop.simps)
      apply (simp only: incrementIP_wordIP ucast_of_nat_64_32 c m outcome.case simp_thms if_False
            cn True if_True s)
      apply (simp only: e ih)
      done
  next
    case False
    then have e: "Suc ((k - 1) div 32) = k div 32"
      using div_le_Suc_pred [of k] by simp
    have a: "map (subBlock b (wordIP (NOT (mask 5)))) [0..<k div 32]
               @ [\<lparr>IP = wordIP (b + of_nat (32 * (k div 32))), Mask = wordIP (NOT (mask 5))\<rparr>]
           = map (subBlock b (wordIP (NOT (mask 5)))) [0..<Suc (k div 32)]"
      by (simp add: subBlock_def)
    show ?thesis
      apply (subst generateLoop.simps)
      apply (simp only: incrementIP_wordIP ucast_of_nat_64_32 c m outcome.case simp_thms if_False
            cn False if_True s)
      apply (simp only: e a ih)
      done
  qed
qed

lemma Contains_all: "Contains \<lparr>IP = wordIP b, Mask = wordIP 0\<rparr> (v4InV6Prefix @ wordIP x)"
  by (simp add: Contains_wordIP)

lemma generateLoop_never_leaves:
  assumes "generateLoop fr to tm i nets = Some y"
  shows "\<not> (fr = \<lparr>IP = wordIP b, Mask = wordIP 0\<rparr> \<and> to = wordIP t)"
proof (rule generateLoop.raw_induct
    [where P = "\<lambda>fr to tm i nets y. \<not> (fr = \<lparr>IP = wordIP b, Mask = wordIP 0\<rparr> \<and> to = wordIP t)",
     OF _ assms])
  fix loop :: "IPNet \<Rightarrow> IP \<Rightarrow> IPMask \<Rightarrow> go_int \<Rightarrow> IPNet list \<Rightarrow> IPNet list outcome option"
    and fr to tm i nets y
  assume ih: "\<And>fr to tm i nets y. loop fr to tm i nets = Some y \<Longrightarrow>
                \<not> (fr = \<lparr>IP = wordIP b, Mask = wordIP 0\<rparr> \<and> to = wordIP t)"
    and st: "(case incrementIP to i of
      Returns probe \<Rightarrow>
        if \<not> Contains fr probe then Some (Returns nets)
        else case incrementIP to i of
             Returns nextFoundNetwork \<Rightarrow>
               if containsNetwork nets (MaskIP nextFoundNetwork tm)
               then loop fr to tm (i + 1) nets
               else loop fr to tm (i + 1)
                     (nets @ [\<lparr>IP = MaskIP nextFoundNetwork tm, Mask = tm\<rparr>])
             | Panics p \<Rightarrow> Some (Panics p)
      | Panics p \<Rightarrow> Some (Panics p)) = Some y"
  show "\<not> (fr = \<lparr>IP = wordIP b, Mask = wordIP 0\<rparr> \<and> to = wordIP t)"
  proof
    assume a: "fr = \<lparr>IP = wordIP b, Mask = wordIP 0\<rparr> \<and> to = wordIP t"
    have "loop fr to tm (i + 1) nets = Some y
        \<or> loop fr to tm (i + 1)
             (nets @ [\<lparr>IP = MaskIP (v4InV6Prefix @ wordIP (t + ucast i)) tm, Mask = tm\<rparr>]) = Some y"
      using st a
      by (simp add: incrementIP_wordIP Contains_all split: if_splits)
    then show False using ih a by blast
  qed
qed

lemma generateLoop_whole_space:
  "generateLoop \<lparr>IP = wordIP b, Mask = wordIP 0\<rparr> (wordIP t) tm i nets = None"
proof (cases "generateLoop \<lparr>IP = wordIP b, Mask = wordIP 0\<rparr> (wordIP t) tm i nets")
  case None
  then show ?thesis .
next
  case (Some y)
  then show ?thesis using generateLoop_never_leaves [OF Some, of b t] by simp
qed

section \<open>Masks and prefix lengths\<close>

lemma bit_maskByte: "bit (maskByte n) j \<longleftrightarrow> j < 8 \<and> 8 \<le> j + n"
proof -
  have m: "(0xff :: byte) = mask 8" by (simp add: mask_eq_exp_minus_1)
  show ?thesis unfolding maskByte_def m by (auto simp: bit_simps)
qed

lemma cidrMaskBytes_step: "cidrMaskBytes (Suc l) n = maskByte n # cidrMaskBytes l (n - 8)"
  by (simp add: maskByte_def)

lemma cidrMaskBytes_4:
  "cidrMaskBytes 4 p = [maskByte p, maskByte (p - 8), maskByte (p - 16), maskByte (p - 24)]"
proof -
  have "cidrMaskBytes (Suc (Suc (Suc (Suc 0)))) p
      = [maskByte p, maskByte (p - 8), maskByte (p - 8 - 8), maskByte (p - 8 - 8 - 8)]"
    by (simp only: cidrMaskBytes_step cidrMaskBytes.simps)
  then show ?thesis by (simp add: numeral_eq_Suc)
qed

lemma CIDRMask_wordIP:
  assumes "p \<le> 32"
  shows "CIDRMask (int p) 32 = wordIP (NOT (mask (32 - p)))"
proof -
  have "CIDRMask (int p) 32 = cidrMaskBytes 4 p"
    using assms by (simp add: CIDRMask_def)
  also have "\<dots> = wordIP (NOT (mask (32 - p)))"
  proof -
    have b0: "maskByte p = ucast (drop_bit 24 (NOT (mask (32 - p)) :: 32 word))"
      using assms by (intro bit_word_eqI) (auto simp: bit_simps bit_maskByte)
    have b1: "maskByte (p - 8) = ucast (drop_bit 16 (NOT (mask (32 - p)) :: 32 word))"
      using assms by (intro bit_word_eqI) (auto simp: bit_simps bit_maskByte)
    have b2: "maskByte (p - 16) = ucast (drop_bit 8 (NOT (mask (32 - p)) :: 32 word))"
      using assms by (intro bit_word_eqI) (auto simp: bit_simps bit_maskByte)
    have b3: "maskByte (p - 24) = ucast (NOT (mask (32 - p)) :: 32 word)"
      using assms by (intro bit_word_eqI) (auto simp: bit_simps bit_maskByte)
    show ?thesis
      unfolding cidrMaskBytes_4 wordIP_def by (simp only: b0 b1 b2 b3)
  qed
  finally show ?thesis .
qed

lemma Size_CIDRMask_all:
  "list_all (\<lambda>p. Size (CIDRMask (int p) 32) = (p, 32)) [0..<33]"
  by code_simp

lemma Size_CIDRMask:
  assumes "p \<le> 32"
  shows "Size (CIDRMask (int p) 32) = (p, 32)"
proof -
  have "p \<in> set [0..<33]" using assms by simp
  with Size_CIDRMask_all show ?thesis
    unfolding list_all_iff by blast
qed

section \<open>The reversal loop\<close>

lemma reverseLoop_middle:
  "length a = length c \<Longrightarrow>
     reverseLoop (int (length a)) (int (length a) + int (length m) - 1) (a @ m @ c)
       = a @ rev m @ c"
proof (induction "length m" arbitrary: a m c rule: less_induct)
  case less
  show ?case
  proof (cases "length m \<le> 1")
    case True
    then have r: "rev m = m"
      by (cases m) auto
    have "\<not> int (length a) < int (length a) + int (length m) - 1"
      using True by simp
    then show ?thesis
      by (subst reverseLoop.simps) (simp only: if_False r)
  next
    case False
    then obtain x m0 where m0: "m = x # m0" and "m0 \<noteq> []"
      by (cases m) auto
    then obtain m' y where m': "m0 = m' @ [y]"
      by (metis rev_exhaust)
    have m: "m = x # m' @ [y]" using m0 m' by simp
    have lt: "int (length a) < int (length a) + int (length m) - 1"
      using m by simp
    have i: "nat (int (length a)) = length a" by simp
    have j: "nat (int (length a) + int (length m) - 1) = length a + Suc (length m')"
      using m by simp
    have xi: "(a @ m @ c) ! length a = x" using m by (simp add: nth_append)
    have xj: "(a @ m @ c) ! (length a + Suc (length m')) = y"
      using m by (simp add: nth_append)
    have u: "(a @ m @ c)[length a := y, length a + Suc (length m') := x]
           = (a @ [y]) @ m' @ (x # c)"
      using m by (simp add: list_update_append)
    have nx: "int (length a) + 1 = int (length (a @ [y]))"
      "int (length a) + int (length m) - 1 - 1 = int (length (a @ [y])) + int (length m') - 1"
      using m by simp_all
    have ih: "reverseLoop (int (length (a @ [y]))) (int (length (a @ [y])) + int (length m') - 1)
                ((a @ [y]) @ m' @ (x # c)) = (a @ [y]) @ rev m' @ (x # c)"
      using less.hyps [of m' "a @ [y]" "x # c"] less.prems m by simp
    show ?thesis
      apply (subst reverseLoop.simps)
      apply (simp only: lt if_True i j xi xj u nx ih)
      apply (simp add: m)
      done
  qed
qed

lemma reverseLoop_rev: "reverseLoop 0 (int (length xs) - 1) xs = rev xs"
  using reverseLoop_middle [of "[]" "[]" xs] by simp

section \<open>Printing and parsing an address\<close>

lemma of_char_digit: "n < 10 \<Longrightarrow> (of_char (digit n) :: int) = 48 + int n"
proof -
  assume n: "n < 10"
  have "(of_char (digit n) :: nat) = (48 + n) mod 256"
    by (simp add: digit_def)
  also have "\<dots> = 48 + n" using n by simp
  finally have "int (of_char (digit n) :: nat) = int (48 + n)" by simp
  then show ?thesis by (simp only: of_nat_of_char of_nat_add of_nat_numeral)
qed

lemma isDigit_digit: "n < 10 \<Longrightarrow> isDigit (digit n)"
  by (simp add: isDigit_def of_char_digit)

lemma digitVal_digit: "n < 10 \<Longrightarrow> digitVal (digit n) = int n"
  by (simp add: digitVal_def of_char_digit)

lemma isDigit_not_special:
  "isDigit c \<Longrightarrow> c \<noteq> CHR ''.'' \<and> c \<noteq> CHR ''/'' \<and> c \<noteq> CHR '':'' \<and> c \<noteq> CHR ''%''"
  by (auto simp: isDigit_def)

lemma byte_less: "unat (v :: byte) < 256"
  using unsigned_less [of v] by simp

lemma ubtoa_digits: "c \<in> set (ubtoa v) \<Longrightarrow> isDigit c"
  using byte_less [of v] by (auto simp: ubtoa_def isDigit_digit split: if_splits)

lemma ubtoa_nonempty: "ubtoa v \<noteq> []"
  by (simp add: ubtoa_def)

lemma parse_one_digit:
  assumes "n < 10" and "\<not> (digLen = 1 \<and> val = 0)" and "val * 10 + int n \<le> 255"
  shows "parseIPv4Loop (digit n # rest) val digLen octs
       = parseIPv4Loop rest (val * 10 + int n) (digLen + 1) octs"
  using assms by (auto simp: isDigit_digit digitVal_digit)

lemma int_div_mod_10: "int (n div 10) * 10 + int (n mod 10) = int n"
proof -
  have "n div 10 * 10 + n mod 10 = n" by simp
  then have "int (n div 10 * 10 + n mod 10) = int n" by (rule arg_cong)
  then show ?thesis by (simp only: of_nat_add of_nat_mult of_nat_numeral)
qed

lemma ubtoa_decimal: "ubtoa v = decimal (unat v)"
  by (simp add: ubtoa_def decimal_def)

lemma parse_decimal:
  assumes b: "n < 256"
  shows "parseIPv4Loop (decimal n @ rest) 0 0 octs
     = parseIPv4Loop rest (int n) (int (length (decimal n))) octs"
proof -
  have le255: "int n \<le> 255" using b by simp
  consider "n < 10" | "10 \<le> n" "n < 100" | "100 \<le> n"
    by linarith
  then show ?thesis
  proof cases
    case 1
    have u: "decimal n = [digit n]" using 1 by (simp add: decimal_def)
    have "parseIPv4Loop (digit n # rest) 0 0 octs
        = parseIPv4Loop rest (0 * 10 + int n) (0 + 1) octs"
      using 1 le255 by (intro parse_one_digit) simp_all
    then show ?thesis unfolding u by simp
  next
    case 2
    then have d: "n div 10 < 10" "n mod 10 < 10" "n div 10 \<noteq> 0"
      by simp_all
    have u: "decimal n = [digit (n div 10), digit (n mod 10)]"
      using 2 by (simp add: decimal_def)
    have e: "int (n div 10) * 10 + int (n mod 10) = int n"
      by (rule int_div_mod_10)
    have "parseIPv4Loop (digit (n div 10) # digit (n mod 10) # rest) 0 0 octs
        = parseIPv4Loop (digit (n mod 10) # rest) (0 * 10 + int (n div 10)) (0 + 1) octs"
      using d by (intro parse_one_digit) simp_all
    also have "\<dots> = parseIPv4Loop (digit (n mod 10) # rest) (int (n div 10)) 1 octs"
      by simp
    also have "\<dots> = parseIPv4Loop rest (int (n div 10) * 10 + int (n mod 10)) (1 + 1) octs"
      using d b e le255 by (intro parse_one_digit) simp_all
    finally show ?thesis unfolding u e by simp
  next
    case 3
    then have d: "n div 100 < 10" "n div 10 mod 10 < 10" "n mod 10 < 10"
      "n div 100 \<noteq> 0"
      using b by simp_all
    have u: "decimal n = [digit (n div 100), digit (n div 10 mod 10), digit (n mod 10)]"
      using 3 by (simp add: decimal_def)
    have q: "n div 100 * 10 + n div 10 mod 10 = n div 10"
    proof -
      have "n div 100 = n div 10 div 10"
        by (simp add: div_mult2_eq)
      then show ?thesis by simp
    qed
    have "int (n div 100 * 10 + n div 10 mod 10) = int (n div 10)"
      using q by (rule arg_cong)
    then have e1: "int (n div 100) * 10 + int (n div 10 mod 10) = int (n div 10)"
      by (simp only: of_nat_add of_nat_mult of_nat_numeral)
    have e2: "int (n div 10) * 10 + int (n mod 10) = int n"
      by (rule int_div_mod_10)
    have le: "int (n div 10) \<le> 25"
      using b by simp
    have "parseIPv4Loop (digit (n div 100) # digit (n div 10 mod 10)
                           # digit (n mod 10) # rest) 0 0 octs
        = parseIPv4Loop (digit (n div 10 mod 10) # digit (n mod 10) # rest)
            (0 * 10 + int (n div 100)) (0 + 1) octs"
      using d by (intro parse_one_digit) simp_all
    also have "\<dots> = parseIPv4Loop (digit (n div 10 mod 10) # digit (n mod 10) # rest)
            (int (n div 100)) 1 octs"
      by simp
    also have "\<dots> = parseIPv4Loop (digit (n mod 10) # rest)
            (int (n div 100) * 10 + int (n div 10 mod 10)) (1 + 1) octs"
      using d e1 le by (intro parse_one_digit) simp_all
    also have "\<dots> = parseIPv4Loop (digit (n mod 10) # rest) (int (n div 10)) 2 octs"
      unfolding e1 by simp
    also have "\<dots> = parseIPv4Loop rest (int (n div 10) * 10 + int (n mod 10)) (2 + 1) octs"
      using d e2 le le255 by (intro parse_one_digit) simp_all
    finally show ?thesis unfolding u e2 by simp
  qed
qed

lemma parse_octet:
  "parseIPv4Loop (ubtoa v @ rest) 0 0 octs
     = parseIPv4Loop rest (int (unat v)) (int (length (ubtoa v))) octs"
  unfolding ubtoa_decimal by (rule parse_decimal) (rule byte_less)

lemma parse_dot:
  assumes "digLen \<noteq> 0" and "rest \<noteq> []" and "length octs \<noteq> 3"
  shows "parseIPv4Loop (CHR ''.'' # rest) val digLen octs
       = parseIPv4Loop rest 0 0 (octs @ [of_int val])"
  using assms by (simp add: isDigit_def)

lemma of_int_unat_byte: "(of_int (int (unat v)) :: byte) = v"
  by simp

lemma parse_octet_dot:
  assumes "length octs < 3"
  shows "parseIPv4Loop (ubtoa v @ CHR ''.'' # ubtoa v' @ rest) 0 0 octs
       = parseIPv4Loop (ubtoa v' @ rest) 0 0 (octs @ [v])"
proof -
  have "parseIPv4Loop (ubtoa v @ CHR ''.'' # ubtoa v' @ rest) 0 0 octs
      = parseIPv4Loop (CHR ''.'' # ubtoa v' @ rest) (int (unat v)) (int (length (ubtoa v))) octs"
    by (rule parse_octet)
  also have "\<dots> = parseIPv4Loop (ubtoa v' @ rest) 0 0 (octs @ [of_int (int (unat v))])"
    using assms ubtoa_nonempty [of v] ubtoa_nonempty [of v'] by (intro parse_dot) simp_all
  finally show ?thesis by simp
qed

lemma parseIPv4_dotted:
  "parseIPv4 (ubtoa a @ ''.'' @ ubtoa b @ ''.'' @ ubtoa c @ ''.'' @ ubtoa d) = Some [a, b, c, d]"
proof -
  have "parseIPv4 (ubtoa a @ ''.'' @ ubtoa b @ ''.'' @ ubtoa c @ ''.'' @ ubtoa d)
      = parseIPv4Loop (ubtoa a @ CHR ''.'' # ubtoa b @ (CHR ''.'' # ubtoa c @ CHR ''.'' # ubtoa d @ [])) 0 0 []"
    by (simp add: parseIPv4_def)
  also have "\<dots> = parseIPv4Loop (ubtoa b @ CHR ''.'' # ubtoa c @ (CHR ''.'' # ubtoa d @ [])) 0 0 [a]"
    by (subst parse_octet_dot) simp_all
  also have "\<dots> = parseIPv4Loop (ubtoa c @ CHR ''.'' # ubtoa d @ []) 0 0 [a, b]"
    by (subst parse_octet_dot) simp_all
  also have "\<dots> = parseIPv4Loop (ubtoa d @ []) 0 0 [a, b, c]"
    by (subst parse_octet_dot) simp_all
  also have "\<dots> = parseIPv4Loop [] (int (unat d)) (int (length (ubtoa d))) [a, b, c]"
    by (rule parse_octet)
  also have "\<dots> = Some [a, b, c, d]"
    by simp
  finally show ?thesis .
qed

lemma parseIPv4Loop_length:
  "parseIPv4Loop s val digLen octs = Some r \<Longrightarrow> length octs \<le> 3 \<Longrightarrow> length r = 4"
proof (induction s arbitrary: val digLen octs)
  case Nil
  then show ?case by (auto split: if_splits)
next
  case (Cons c s)
  show ?case
  proof (cases "isDigit c")
    case True
    then have "parseIPv4Loop s (val * 10 + digitVal c) (digLen + 1) octs = Some r"
      using Cons.prems(1) by (simp split: if_splits)
    then show ?thesis using Cons.IH Cons.prems(2) by blast
  next
    case False
    then have "parseIPv4Loop s 0 0 (octs @ [of_int val]) = Some r" and "length octs \<noteq> 3"
      using Cons.prems(1) by (simp_all split: if_splits)
    then show ?thesis using Cons.IH [of 0 0 "octs @ [of_int val]"] Cons.prems(2) by simp
  qed
qed

lemma four_bytes_wordIP:
  assumes "length r = 4"
  shows "r = wordIP (ipWord r)"
proof -
  obtain a b c d where "r = [a, b, c, d]"
    using assms by (auto simp: length_Suc_conv numeral_eq_Suc)
  then show ?thesis by (simp only: wordIP_ipWord)
qed

lemma ParseCIDR_shape:
  assumes "ParseCIDR s = Some (ip, net)"
  shows "\<exists>x p. p \<le> 32 \<and> ip = v4InV6Prefix @ wordIP x
           \<and> net = \<lparr>IP = wordIP (x AND NOT (mask (32 - p))), Mask = wordIP (NOT (mask (32 - p)))\<rparr>
           \<and> Mask net = CIDRMask (int p) 32"
proof -
  from assms obtain b4 n i where
      p4: "parseIPv4 (takeWhile (\<lambda>c. c \<noteq> CHR ''/'') s) = Some b4"
    and n: "0 \<le> n" "n \<le> 32"
    and r: "ip = v4InV6Prefix @ b4"
       "net = \<lparr>IP = MaskIP (v4InV6Prefix @ b4) (CIDRMask n 32), Mask = CIDRMask n 32\<rparr>"
    by (auto simp: ParseCIDR_def ParseAddr_def Let_def not_less split: if_splits option.splits)
  have "length b4 = 4"
    using p4 by (auto simp: parseIPv4_def dest: parseIPv4Loop_length)
  then have b4: "b4 = wordIP (ipWord b4)" by (rule four_bytes_wordIP)
  have m: "CIDRMask n 32 = wordIP (NOT (mask (32 - nat n)))"
    using CIDRMask_wordIP [of "nat n"] n by simp
  have "net = \<lparr>IP = wordIP (ipWord b4 AND NOT (mask (32 - nat n))),
               Mask = wordIP (NOT (mask (32 - nat n)))\<rparr>"
    unfolding r m by (subst b4) (simp only: MaskIP_prefixed)
  moreover have "ip = v4InV6Prefix @ wordIP (ipWord b4)"
    using r(1) b4 by simp
  moreover have "Mask net = CIDRMask (int (nat n)) 32"
    using r(2) n by simp
  moreover have "nat n \<le> 32" using n by simp
  ultimately show ?thesis by blast
qed

lemma IP_String_wordIP:
  "\<exists>a b c d. wordIP w = [a, b, c, d]
     \<and> IP_String (wordIP w) = ubtoa a @ ''.'' @ ubtoa b @ ''.'' @ ubtoa c @ ''.'' @ ubtoa d"
  by (simp add: IP_String_def) (simp add: wordIP_def)

lemma dotted_chars:
  assumes "ch \<in> set (ubtoa a @ ''.'' @ ubtoa b @ ''.'' @ ubtoa c @ ''.'' @ ubtoa d)"
  shows "ch \<noteq> CHR ''/''"
  using assms isDigit_not_special [of ch] by (auto dest: ubtoa_digits)

lemma find_app:
  "find P (xs @ ys) = (case find P xs of None \<Rightarrow> find P ys | Some x \<Rightarrow> Some x)"
  by (induction xs) auto

lemma ParseAddr_dotted:
  "ParseAddr (ubtoa a @ ''.'' @ ubtoa b @ ''.'' @ ubtoa c @ ''.'' @ ubtoa d) = Some [a, b, c, d]"
proof -
  have "find (\<lambda>c. c = CHR ''.'' \<or> c = CHR '':'' \<or> c = CHR ''%'') (ubtoa a) = None"
    using isDigit_not_special by (auto simp: find_None_iff dest: ubtoa_digits)
  then have "find (\<lambda>c. c = CHR ''.'' \<or> c = CHR '':'' \<or> c = CHR ''%'')
               (ubtoa a @ ''.'' @ ubtoa b @ ''.'' @ ubtoa c @ ''.'' @ ubtoa d) = Some (CHR ''.'')"
    by (simp add: find_app)
  then show ?thesis
    by (simp only: ParseAddr_def option.case parseIPv4_dotted) simp
qed

lemma itoa_27: "itoa defaultSubnetMask = ''27''"
  by code_simp

lemma dtoi_27: "dtoi ''27'' = Some (27, 2)"
  by code_simp

lemma ParseCIDR_printed:
  "ParseCIDR (IP_String (wordIP w) @ ''/'' @ itoa defaultSubnetMask)
     = Some (v4InV6Prefix @ wordIP w,
             \<lparr>IP = wordIP (w AND NOT (mask 5)), Mask = wordIP (NOT (mask 5))\<rparr>)"
proof -
  obtain a b c d where w: "wordIP w = [a, b, c, d]"
    and s: "IP_String (wordIP w) = ubtoa a @ ''.'' @ ubtoa b @ ''.'' @ ubtoa c @ ''.'' @ ubtoa d"
    using IP_String_wordIP by blast
  let ?addr = "ubtoa a @ ''.'' @ ubtoa b @ ''.'' @ ubtoa c @ ''.'' @ ubtoa d"
  have nos: "\<And>ch. ch \<in> set ?addr \<Longrightarrow> ch \<noteq> CHR ''/''"
    by (rule dotted_chars)
  have tw: "takeWhile (\<lambda>c. c \<noteq> CHR ''/'') (?addr @ ''/'' @ ''27'') = ?addr"
    using nos by (subst takeWhile_append2) auto
  have dw: "dropWhile (\<lambda>c. c \<noteq> CHR ''/'') (?addr @ ''/'' @ ''27'') = ''/'' @ ''27''"
    using nos by (subst dropWhile_append2) auto
  have m: "CIDRMask 27 32 = wordIP (NOT (mask 5))"
    using CIDRMask_wordIP [of 27] by simp
  have pa: "ParseAddr ?addr = Some [a, b, c, d]"
    by (rule ParseAddr_dotted)
  have sl: "CHR ''/'' \<in> set (?addr @ ''/'' @ ''27'')" by simp
  have t: "tl (''/'' @ ''27'') = ''27''" by simp
  have "ParseCIDR (?addr @ ''/'' @ ''27'')
      = Some (v4InV6Prefix @ [a, b, c, d],
              \<lparr>IP = MaskIP (v4InV6Prefix @ [a, b, c, d]) (CIDRMask 27 32), Mask = CIDRMask 27 32\<rparr>)"
    apply (simp only: ParseCIDR_def Let_def tw dw t pa dtoi_27 option.case prod.case sl)
    apply simp
    done
  then show ?thesis
    unfolding s itoa_27 m by (simp only: flip: w) (simp only: MaskIP_prefixed)
qed

section \<open>The candidates of a parsed block\<close>

lemma mask27_word: "wordIP (NOT (mask 5)) = mask27"
proof -
  have "CIDRMask 27 32 = mask27" unfolding mask27_def by code_simp
  then show ?thesis using CIDRMask_wordIP [of 27] by simp
qed

lemma take_bit_and_not_mask: "take_bit n (x AND NOT (mask n)) = 0" for x :: "32 word"
  by (rule bit_word_eqI) (auto simp: bit_simps)

lemma ParseCIDR_empty: "ParseCIDR [] = None"
  by (simp add: ParseCIDR_def)

lemma pow_div_32:
  assumes "p < 27"
  shows "(2::nat) ^ (32 - p) div 32 = 2 ^ (27 - p)"
proof -
  have "(2::nat) ^ (32 - p) = 2 ^ (5 + (27 - p))" using assms by simp
  also have "\<dots> = 2 ^ 5 * 2 ^ (27 - p)" by (rule power_add)
  finally show ?thesis by simp
qed

lemma buildSubnetAddress_cases:
  assumes pc: "ParseCIDR (CidrBlock vpc) = Some (ip, net)"
  shows "buildSubnetAddress vpc =
           (if 27 \<le> prefixLen net
            then Some (Returns ([], Some (ErrNew (''vpc cidr block '' @ CidrBlock vpc
                        @ '' cannot contain generated subnet mask /'' @ itoa defaultSubnetMask))))
            else if prefixLen net = 0 then None
            else Some (Returns (rev (map (subBlock (ipWord (IP net)) mask27)
                                       [0..<2 ^ (27 - prefixLen net)]), None)))"
proof -
  obtain x p where p: "p \<le> 32"
    and net: "net = \<lparr>IP = wordIP (x AND NOT (mask (32 - p))), Mask = wordIP (NOT (mask (32 - p)))\<rparr>"
    and mk: "Mask net = CIDRMask (int p) 32"
    using ParseCIDR_shape [OF pc] by blast
  define b where "b = x AND NOT (mask (32 - p))"
  have pl: "prefixLen net = p"
    unfolding prefixLen_def mk using Size_CIDRMask [OF p] by simp
  have sz: "fst (Size (Mask net)) = p"
    using pl by (simp add: prefixLen_def)
  have ipn: "IP net = wordIP b" "Mask net = wordIP (NOT (mask (32 - p)))"
    using net by (simp_all add: b_def)
  have bw: "ipWord (IP net) = b"
    by (simp add: ipn ipWord_wordIP)
  have ne: "CidrBlock vpc \<noteq> []"
    using pc ParseCIDR_empty by auto
  have al: "take_bit (32 - p) b = 0"
    unfolding b_def by (rule take_bit_and_not_mask)
  show ?thesis
  proof (cases "27 \<le> p")
    case True
    then show ?thesis
      unfolding buildSubnetAddress_def using ne pc sz pl
      by (simp add: defaultSubnetMask_def)
  next
    case False
    then have p27: "p < 27" by simp
    have a5: "take_bit 5 b = 0"
      using al p27 by (intro aligned_5 [of "32 - p"]) simp_all
    have b5: "b AND NOT (mask 5) = b"
      using a5 by (simp add: and_not_mask_eq)
    have cro: "ParseCIDR (IP_String (IP net) @ ''/'' @ itoa defaultSubnetMask)
        = Some (v4InV6Prefix @ wordIP b, \<lparr>IP = wordIP b, Mask = mask27\<rparr>)"
      using ParseCIDR_printed [of b] by (simp add: ipn b5 mask27_word)
    have gen: "generateAvailableSubnets net \<lparr>IP = wordIP b, Mask = mask27\<rparr>
        = generateLoop \<lparr>IP = wordIP b, Mask = wordIP (NOT (mask (32 - p)))\<rparr> (wordIP b)
            (wordIP (NOT (mask 5))) (of_nat 0)
            (map (subBlock b (wordIP (NOT (mask 5)))) [0..<Suc ((0 - 1) div 32)])"
      unfolding generateAvailableSubnets_def
      by (simp add: net b_def subBlock_def mask27_word)
    show ?thesis
    proof (cases "p = 0")
      case True
      have z: "NOT (mask 32) = (0 :: 32 word)"
        by (rule bit_word_eqI) (auto simp: bit_simps)
      have "generateAvailableSubnets net \<lparr>IP = wordIP b, Mask = mask27\<rparr> = None"
        unfolding gen using True by (simp add: z generateLoop_whole_space)
      then show ?thesis
        unfolding buildSubnetAddress_def using ne pc sz pl p27 True cro
        by (simp add: defaultSubnetMask_def)
    next
      case False
      then have n32: "32 - p < 32" using p by simp
      have n5: "5 \<le> 32 - p" using p27 by simp
      have "generateAvailableSubnets net \<lparr>IP = wordIP b, Mask = mask27\<rparr>
          = Some (Returns (map (subBlock b mask27) [0..<2 ^ (27 - p)]))"
        unfolding gen
        using generateLoop_from [OF al n5 n32, of 0] pow_div_32 [OF p27]
        by (simp add: mask27_word)
      then show ?thesis
        unfolding buildSubnetAddress_def reverseLoop_rev using ne pc sz pl p27 False cro bw
        by (simp add: defaultSubnetMask_def rev_map)
    qed
  qed
qed

section \<open>Incrementing an address\<close>

lemma To4_length: "To4 a \<noteq> [] \<Longrightarrow> length (To4 a) = 4"
  by (auto simp: To4_def split: if_splits)

lemma To4_idem: "length (To4 a) = 4 \<Longrightarrow> To4 (To4 a) = To4 a"
  by (simp add: To4_def)

lemma incrementIP_To4: "incrementIP (To4 ip) inc = incrementIP ip inc"
proof (cases "To4 ip = []")
  case True
  then show ?thesis by (simp add: incrementIP_def To4_def)
next
  case False
  then have "To4 (To4 ip) = To4 ip" by (intro To4_idem To4_length)
  then show ?thesis by (simp add: incrementIP_def)
qed

lemma unat_ucast_nonneg:
  fixes inc :: "64 word"
  assumes "0 \<le> sint inc"
  shows "unat (ucast inc :: 32 word) = nat (sint inc) mod 2 ^ 32"
proof -
  have "sint inc < 2 ^ (LENGTH(64) - 1)"
    by (rule sint_lt)
  then have "sint inc < 2 ^ 64" by simp
  then have "take_bit 64 (sint inc) = sint inc"
    using assms by (simp add: take_bit_int_eq_self)
  then have "sint inc = uint inc"
    using uint_sint [of inc] by simp
  then have "nat (sint inc) = unat inc" by simp
  moreover have "unat (ucast inc :: 32 word) = unat inc mod 2 ^ 32"
    by (simp add: unsigned_ucast_eq take_bit_eq_mod)
  ultimately show ?thesis by simp
qed

text \<open>
  Claim C10. For every IPv4 address (in its 4-byte or its 16-byte form) and every
  non-negative increment, \<open>incrementIP\<close> returns the IPv4 address whose packed 32-bit
  value is the packed value of the input plus the increment, modulo \<open>2 ^ 32\<close>.
\<close>

theorem incrementIP_adds_modulo:
  assumes "length (To4 ip) = 4" and "0 \<le> sint inc"
  shows "\<exists>r. incrementIP ip inc = Returns r \<and> length (To4 r) = 4
           \<and> packed r = (packed ip + nat (sint inc)) mod 2 ^ 32"
proof -
  have w: "To4 ip = wordIP (ipWord (To4 ip))"
    using assms(1) by (rule four_bytes_wordIP)
  have "incrementIP ip inc = incrementIP (wordIP (ipWord (To4 ip))) inc"
    using incrementIP_To4 [of ip inc] w by simp
  then have r: "incrementIP ip inc = Returns (v4InV6Prefix @ wordIP (ipWord (To4 ip) + ucast inc))"
    by (simp only: incrementIP_wordIP)
  have "unat (ipWord (To4 ip) + (ucast inc :: 32 word))
      = (unat (ipWord (To4 ip)) + unat (ucast inc :: 32 word)) mod 2 ^ 32"
    by (simp add: unat_word_ariths)
  also have "\<dots> = (unat (ipWord (To4 ip)) + nat (sint inc) mod 2 ^ 32) mod 2 ^ 32"
    by (simp only: unat_ucast_nonneg [OF assms(2)])
  also have "\<dots> = (unat (ipWord (To4 ip)) + nat (sint inc)) mod 2 ^ 32"
    by (simp only: mod_add_right_eq)
  finally have "packed (v4InV6Prefix @ wordIP (ipWord (To4 ip) + ucast inc))
      = (packed ip + nat (sint inc)) mod 2 ^ 32"
    by (simp add: packed_def ipWord_wordIP)
  then show ?thesis using r by simp
qed

theorem incrementIP_adds_modulo_witness:
  "length (To4 [10, 0, 255, 255]) = 4 \<and> 0 \<le> sint (1 :: go_int)
   \<and> (\<exists>r. incrementIP [10, 0, 255, 255] 1 = Returns r \<and> length (To4 r) = 4
          \<and> packed r = (packed [10, 0, 255, 255] + nat (sint (1 :: go_int))) mod 2 ^ 32)"
proof -
  have a: "length (To4 [10, 0, 255, 255]) = 4"
    by (simp add: To4_def)
  have b: "0 \<le> sint (1 :: go_int)"
    by simp
  show ?thesis
    using a b incrementIP_adds_modulo [OF a b] by blast
qed

section \<open>Listing the subnets of a missing VPC\<close>

text \<open>
  Claim C9. When \<open>GetVPCSubnets\<close> is called with a \<open>nil\<close> VPC and the subnet listing
  succeeds, it returns a \<open>nil\<close> subnet list together with a \<open>nil\<close> error: the
  guard wraps the \<open>nil\<close> error of the listing, and wrapping \<open>nil\<close> gives \<open>nil\<close>.
\<close>

theorem GetVPCSubnets_nil_vpc_silent:
  assumes "getSubnets api env w = ((subs, None), w')"
  shows "GetVPCSubnets api env None w = (([], None), w')"
  using assms by (simp add: GetVPCSubnets_def Wrap_def)

theorem GetVPCSubnets_nil_vpc_silent_witness:
  "getSubnets (simulatedEC2 [] [] None None) exampleEnv \<lparr>svc = [], log = []\<rparr>
     = (([], None), \<lparr>svc = [], log = [ReqDescribeSubnets]\<rparr>)
   \<and> GetVPCSubnets (simulatedEC2 [] [] None None) exampleEnv None \<lparr>svc = [], log = []\<rparr>
     = (([], None), \<lparr>svc = [], log = [ReqDescribeSubnets]\<rparr>)"
proof -
  have h: "getSubnets (simulatedEC2 [] [] None None) exampleEnv \<lparr>svc = [], log = []\<rparr>
     = (([], None), \<lparr>svc = [], log = [ReqDescribeSubnets]\<rparr>)"
    by (simp add: getSubnets_def callDescribeSubnets_def simulatedEC2_def)
  show ?thesis using h GetVPCSubnets_nil_vpc_silent [OF h] by simp
qed

section \<open>The attempts of the candidate loop\<close>







end
